(* ===== verification/Prelude.thy ===== *)
theory Prelude
  imports Main "HOL-Library.Word" "HOL-Library.List_Lexorder" "HOL-Library.Char_ord"
begin

text \<open>
  Machine integers of the Rust sources (\<open>u32\<close>, \<open>u64\<close>, \<open>i64\<close>) at their width, with the saturating
  and checked operations the code uses, and the collections of hints the components share.

  A string is the list of its UTF-8 bytes, so comparison of strings is the byte-wise lexicographic
  order of \<open>str::cmp\<close>. The operations that look at Unicode properties (\<open>trim\<close>,
  \<open>split_whitespace\<close>, \<open>to_lowercase\<close>) are modelled for ASCII text; bytes of other characters
  are left alone by them.
\<close>

named_theorems str_simps \<open>facts on the string operations of the standard library\<close>
named_theorems int_simps \<open>facts on the fixed-width integers\<close>

section \<open>Machine integers\<close>

type_synonym u8 = "8 word"
type_synonym u16 = "16 word"
type_synonym u32 = "32 word"
type_synonym u64 = "64 word"
type_synonym i32 = "32 word" \<comment> \<open>read with \<open>sint\<close>\<close>
type_synonym i64 = "64 word" \<comment> \<open>read with \<open>sint\<close>\<close>

definition i64_max :: i64 where
  "i64_max = 0x7FFFFFFFFFFFFFFF"

definition i64_min_int :: int where
  "i64_min_int = - (2 ^ 63)"

definition i64_max_int :: int where
  "i64_max_int = 2 ^ 63 - 1"

text \<open>Clamping an exact result into the range of \<open>i64\<close>: what \<open>i64::saturating_mul\<close> returns.\<close>

definition clamp_i64 :: "int \<Rightarrow> int" where
  "clamp_i64 x = max i64_min_int (min i64_max_int x)"

definition saturating_mul_i64 :: "i64 \<Rightarrow> i64 \<Rightarrow> i64" where
  "saturating_mul_i64 a b = word_of_int (clamp_i64 (sint a * sint b))"

definition max_i64 :: "i64 \<Rightarrow> i64 \<Rightarrow> i64" where
  "max_i64 a b = (if sint a < sint b then b else a)"

definition saturating_add_u64 :: "u64 \<Rightarrow> u64 \<Rightarrow> u64" where
  "saturating_add_u64 a b = (if 2 ^ 64 \<le> uint a + uint b then - 1 else a + b)"

text \<open>\<open>i64::try_from(u64)\<close>: fails above \<open>i64::MAX\<close>.\<close>

definition i64_try_from :: "u64 \<Rightarrow> i64 option" where
  "i64_try_from x = (if uint x \<le> i64_max_int then Some x else None)"

lemma sint_i64_max [simp, int_simps]: "sint i64_max = i64_max_int"
  by (simp add: i64_max_def i64_max_int_def)

lemma uint_i64_max [simp, int_simps]: "uint i64_max = i64_max_int"
  by (simp add: i64_max_def i64_max_int_def)

lemma sint_i64_range: "i64_min_int \<le> sint (x :: i64)" "sint (x :: i64) \<le> i64_max_int"
  using sint_ge [of x] sint_lt [of x] by (simp_all add: i64_min_int_def i64_max_int_def)

lemma uint_u64_range: "0 \<le> uint (x :: u64)" "uint (x :: u64) < 2 ^ 64"
  using uint_lt2p [of x] by simp_all

lemma sint_of_int_i64:
  assumes "i64_min_int \<le> x" "x \<le> i64_max_int"
  shows "sint (word_of_int x :: i64) = x"
proof -
  have "signed_take_bit 63 x = x"
    using assms by (simp add: signed_take_bit_int_eq_self i64_min_int_def i64_max_int_def)
  then show ?thesis by (simp add: sint_sbintrunc')
qed

lemma clamp_i64_range: "i64_min_int \<le> clamp_i64 x" "clamp_i64 x \<le> i64_max_int"
  by (simp_all add: clamp_i64_def i64_min_int_def i64_max_int_def)

lemma sint_saturating_mul [int_simps]:
  "sint (saturating_mul_i64 a b) = clamp_i64 (sint a * sint b)"
  by (simp add: saturating_mul_i64_def sint_of_int_i64 clamp_i64_range)

lemma uint_of_nonneg_i64: "0 \<le> sint (x :: i64) \<Longrightarrow> uint x = sint x"
proof -
  assume nonneg: "0 \<le> sint x"
  have "uint x = sint x mod 2 ^ 64"
    by (simp add: uint_sint take_bit_eq_mod)
  then show ?thesis
    using nonneg sint_i64_range(2) [of x] by (simp add: i64_max_int_def)
qed

lemma uint_saturating_add [int_simps]:
  "uint (saturating_add_u64 a b) = min (2 ^ 64 - 1) (uint a + uint b)"
proof (cases "2 ^ 64 \<le> uint a + uint b")
  case True
  moreover have "uint (- 1 :: u64) = 2 ^ 64 - 1"
    by (simp add: uint_word_ariths)
  ultimately show ?thesis by (simp add: saturating_add_u64_def)
next
  case False
  then have "uint (a + b) = uint a + uint b"
    by (simp add: uint_plus_if_size size_word_def)
  with False show ?thesis by (simp add: saturating_add_u64_def)
qed

end
