(* ===== verification/Floats.thy ===== *)
theory Floats
  imports Rust_String
begin

text \<open>
  IEEE 754 values as their bit patterns (\<open>32 word\<close> for \<open>f32\<close>, \<open>64 word\<close> for \<open>f64\<close>), with the
  comparisons the sources make: \<open>==\<close>, \<open>partial_cmp\<close> (no order on NaN, both zeros equal) and
  \<open>total_cmp\<close> (the total order on bit patterns). The sources never do arithmetic on floats.
\<close>

type_synonym f32 = "32 word"
type_synonym f64 = "64 word"

section \<open>Sign and magnitude\<close>

definition f32_magnitude :: "f32 \<Rightarrow> int" where
  "f32_magnitude x = uint (take_bit 31 x)"

definition f32_is_nan :: "f32 \<Rightarrow> bool" where
  "f32_is_nan x = (0x7F800000 < f32_magnitude x)"

definition f64_magnitude :: "f64 \<Rightarrow> int" where
  "f64_magnitude x = uint (take_bit 63 x)"

definition f64_is_nan :: "f64 \<Rightarrow> bool" where
  "f64_is_nan x = (0x7FF0000000000000 < f64_magnitude x)"

text \<open>The number line: the value's position among all values of the format.\<close>

definition f32_key :: "f32 \<Rightarrow> int" where
  "f32_key x = (if bit x 31 then - f32_magnitude x else f32_magnitude x)"

definition f64_key :: "f64 \<Rightarrow> int" where
  "f64_key x = (if bit x 63 then - f64_magnitude x else f64_magnitude x)"

text \<open>\<open>total_cmp\<close> separates \<open>-0\<close> from \<open>+0\<close> and orders the NaNs at both ends.\<close>

definition f32_total_key :: "f32 \<Rightarrow> int" where
  "f32_total_key x = (if bit x 31 then - f32_magnitude x - 1 else f32_magnitude x)"

definition f64_total_key :: "f64 \<Rightarrow> int" where
  "f64_total_key x = (if bit x 63 then - f64_magnitude x - 1 else f64_magnitude x)"

section \<open>Comparisons\<close>

definition f32_partial_cmp :: "f32 \<Rightarrow> f32 \<Rightarrow> ordering option" where
  "f32_partial_cmp a b =
     (if f32_is_nan a \<or> f32_is_nan b then None else Some (cmp_of (f32_key a) (f32_key b)))"

definition f32_total_cmp :: "f32 \<Rightarrow> f32 \<Rightarrow> ordering" where
  "f32_total_cmp a b = cmp_of (f32_total_key a) (f32_total_key b)"

definition f64_total_cmp :: "f64 \<Rightarrow> f64 \<Rightarrow> ordering" where
  "f64_total_cmp a b = cmp_of (f64_total_key a) (f64_total_key b)"

definition f64_eq :: "f64 \<Rightarrow> f64 \<Rightarrow> bool" where
  "f64_eq a b = (\<not> f64_is_nan a \<and> \<not> f64_is_nan b \<and> f64_key a = f64_key b)"

lemma f64_eq_refl [simp]: "\<not> f64_is_nan a \<Longrightarrow> f64_eq a a"
  by (simp add: f64_eq_def)

lemma f64_eq_sym: "f64_eq a b \<Longrightarrow> f64_eq b a"
  by (simp add: f64_eq_def)

lemma f64_eq_trans: "f64_eq a b \<Longrightarrow> f64_eq b c \<Longrightarrow> f64_eq a c"
  by (simp add: f64_eq_def)

lemma f32_partial_cmp_key:
  "\<not> f32_is_nan a \<Longrightarrow> \<not> f32_is_nan b \<Longrightarrow> f32_partial_cmp a b = Some (cmp_of (f32_key a) (f32_key b))"
  by (simp add: f32_partial_cmp_def)

end
