(* ===== verification/Sort_By.thy ===== *)
theory Sort_By
  imports Floats "HOL-Library.Multiset"
begin

text \<open>
  \<open>slice::sort_by\<close>: Rust's stable sort by a comparison function, as a stable insertion sort. For a
  comparison that is a total preorder a stable sort has one result, so the algorithm does not
  matter; the locale \<open>keyed_cmp\<close> states that contract for every comparison the sources
  sort with (a key in a linear order), and gives the facts on sorting that the node, the gateway
  and the router use.
\<close>

fun insert_by :: "('a \<Rightarrow> 'a \<Rightarrow> ordering) \<Rightarrow> 'a \<Rightarrow> 'a list \<Rightarrow> 'a list" where
  "insert_by cmp x [] = [x]"
| "insert_by cmp x (y # ys) =
     (if cmp x y = Greater then y # insert_by cmp x ys else x # y # ys)"

definition sort_by :: "('a \<Rightarrow> 'a \<Rightarrow> ordering) \<Rightarrow> 'a list \<Rightarrow> 'a list" where
  "sort_by cmp xs = foldr (insert_by cmp) xs []"

lemma mset_insert_by [simp]: "mset (insert_by cmp x ys) = add_mset x (mset ys)"
  by (induction ys) auto

lemma mset_sort_by [simp]: "mset (sort_by cmp xs) = mset xs"
  by (induction xs) (auto simp: sort_by_def)

lemma set_sort_by [simp]: "set (sort_by cmp xs) = set xs"
  by (metis mset_sort_by set_mset_mset)

lemma length_sort_by [simp]: "length (sort_by cmp xs) = length xs"
  by (metis mset_sort_by size_mset)

section \<open>Comparisons by a key\<close>

locale keyed_cmp =
  fixes cmp :: "'a \<Rightarrow> 'a \<Rightarrow> ordering"
    and key :: "'a \<Rightarrow> 'k::linorder"
    and ok :: "'a \<Rightarrow> bool"
  assumes cmp_key: "ok a \<Longrightarrow> ok b \<Longrightarrow> cmp a b = cmp_of (key a) (key b)"
begin

lemma insert_by_insort:
  "ok x \<Longrightarrow> list_all ok ys \<Longrightarrow> insert_by cmp x ys = insort_key key x ys"
  by (induction ys) (auto simp: cmp_key not_le)

lemma sort_by_sort_key: "list_all ok xs \<Longrightarrow> sort_by cmp xs = sort_key key xs"
proof (induction xs)
  case (Cons x xs)
  have "list_all ok (sort_key key xs)"
    using Cons.prems by (simp add: list_all_iff)
  with Cons show ?case
    by (simp add: sort_by_def insert_by_insort)
qed (simp add: sort_by_def)

lemma sorted_by_key: "list_all ok xs \<Longrightarrow> sorted (map key (sort_by cmp xs))"
  by (simp add: sort_by_sort_key)

lemma sort_by_stable:
  "list_all ok xs \<Longrightarrow> filter (\<lambda>y. key y = k) (sort_by cmp xs) = filter (\<lambda>y. key y = k) xs"
  by (simp add: sort_by_sort_key sort_key_stable)

end

section \<open>The first \<open>k\<close> of a merge need only the first \<open>k\<close> of each part\<close>

lemma sort_key_split_around:
  fixes f :: "'a \<Rightarrow> 'k::linorder"
  assumes "\<forall>x \<in> set ms. f x = c"
  shows "sort_key f (us @ ms @ vs) =
    sort_key f (filter (\<lambda>x. f x \<le> c) us @ filter (\<lambda>x. f x < c) vs) @ ms @
    sort_key f (filter (\<lambda>x. c < f x) us @ filter (\<lambda>x. c \<le> f x) vs)"
    (is "_ = sort_key f ?P @ ms @ sort_key f ?Q")
proof (rule properties_for_sort_key)
  have split: "mset (filter (\<lambda>x. f x \<le> c) xs) + mset (filter (\<lambda>x. c < f x) xs) = mset xs" for xs
    by (induction xs) auto
  have split': "mset (filter (\<lambda>x. f x < c) xs) + mset (filter (\<lambda>x. c \<le> f x) xs) = mset xs" for xs
    by (induction xs) auto
  have "mset (sort_key f ?P @ ms @ sort_key f ?Q) =
      (mset (filter (\<lambda>x. f x \<le> c) us) + mset (filter (\<lambda>x. c < f x) us)) + mset ms +
      (mset (filter (\<lambda>x. f x < c) vs) + mset (filter (\<lambda>x. c \<le> f x) vs))"
    by simp
  also have "\<dots> = mset (us @ ms @ vs)"
    by (simp only: split split') simp
  finally show "mset (sort_key f ?P @ ms @ sort_key f ?Q) = mset (us @ ms @ vs)" .
  have "sorted (map f ms)"
    using assms by (induction ms) auto
  then show "sorted (map f (sort_key f ?P @ ms @ sort_key f ?Q))"
    using assms by (fastforce simp: sorted_append)
  have two: "filter (\<lambda>x. f k = f x) (sort_key f xs) = filter (\<lambda>x. f k = f x) xs" for k xs
    using sort_key_stable [of f "f k" xs] by (simp add: eq_commute)
  show "filter (\<lambda>x. f k = f x) (sort_key f ?P @ ms @ sort_key f ?Q)
      = filter (\<lambda>x. f k = f x) (us @ ms @ vs)" for k
  proof (cases "f k" c rule: linorder_cases)
    case less
    then have preds:
      "(\<lambda>x. f x \<le> c \<and> f k = f x) = (\<lambda>x. f k = f x)"
      "(\<lambda>x. f x < c \<and> f k = f x) = (\<lambda>x. f k = f x)"
      "(\<lambda>x. c < f x \<and> f k = f x) = (\<lambda>x. False)"
      "(\<lambda>x. c \<le> f x \<and> f k = f x) = (\<lambda>x. False)"
      by (auto simp: fun_eq_iff)
    have "filter (\<lambda>x. f k = f x) ms = []"
      using assms less by (auto simp: filter_empty_conv)
    then show ?thesis by (simp add: two preds)
  next
    case equal
    then have preds:
      "(\<lambda>x. f x \<le> c \<and> f k = f x) = (\<lambda>x. f k = f x)"
      "(\<lambda>x. f x < c \<and> f k = f x) = (\<lambda>x. False)"
      "(\<lambda>x. c < f x \<and> f k = f x) = (\<lambda>x. False)"
      "(\<lambda>x. c \<le> f x \<and> f k = f x) = (\<lambda>x. f k = f x)"
      by (auto simp: fun_eq_iff)
    have "filter (\<lambda>x. f k = f x) ms = ms"
      using assms equal by (simp add: filter_id_conv)
    then show ?thesis by (simp add: two preds)
  next
    case greater
    then have preds:
      "(\<lambda>x. f x \<le> c \<and> f k = f x) = (\<lambda>x. False)"
      "(\<lambda>x. f x < c \<and> f k = f x) = (\<lambda>x. False)"
      "(\<lambda>x. c < f x \<and> f k = f x) = (\<lambda>x. f k = f x)"
      "(\<lambda>x. c \<le> f x \<and> f k = f x) = (\<lambda>x. f k = f x)"
      by (auto simp: fun_eq_iff)
    have "filter (\<lambda>x. f k = f x) ms = []"
      using assms greater by (auto simp: filter_empty_conv)
    then show ?thesis by (simp add: two preds)
  qed
qed

lemma take_sort_key_drop_one:
  fixes f :: "'a \<Rightarrow> 'k::linorder"
  assumes "\<forall>y \<in> set ys. f y \<le> f z" "k \<le> length ys"
  shows "take k (sort_key f (us @ ys @ z # vs)) = take k (sort_key f (us @ ys @ vs))"
proof -
  let ?lo = "sort_key f (filter (\<lambda>x. f x \<le> f z) (us @ ys) @ filter (\<lambda>x. f x < f z) vs)"
  let ?hi = "sort_key f (filter (\<lambda>x. f z < f x) (us @ ys) @ filter (\<lambda>x. f z \<le> f x) vs)"
  have "sort_key f ((us @ ys) @ [z] @ vs) = ?lo @ [z] @ ?hi"
    by (rule sort_key_split_around) simp
  moreover have "sort_key f ((us @ ys) @ [] @ vs) = ?lo @ [] @ ?hi"
    by (rule sort_key_split_around) simp
  moreover have "k \<le> length ?lo"
  proof -
    have "filter (\<lambda>x. f x \<le> f z) ys = ys"
      using assms(1) by (simp add: filter_id_conv)
    then show ?thesis using assms(2) by simp
  qed
  ultimately show ?thesis by simp
qed

lemma take_sort_key_take_part:
  fixes f :: "'a \<Rightarrow> 'k::linorder"
  assumes "sorted (map f ys)"
  shows "take k (sort_key f (us @ ys @ vs)) = take k (sort_key f (us @ take k ys @ vs))"
  using assms
proof (induction ys rule: rev_induct)
  case (snoc z ys)
  show ?case
  proof (cases "k \<le> length ys")
    case True
    have "\<forall>y \<in> set ys. f y \<le> f z"
      using snoc.prems by (simp add: sorted_append)
    then have "take k (sort_key f (us @ ys @ z # vs)) = take k (sort_key f (us @ ys @ vs))"
      using True by (rule take_sort_key_drop_one)
    with snoc True show ?thesis by (simp add: sorted_append)
  qed simp
qed simp

theorem take_sort_key_merge:
  fixes f :: "'a \<Rightarrow> 'k::linorder"
  assumes "\<forall>ys \<in> set yss. sorted (map f ys)"
  shows "take k (sort_key f (us @ concat (map (take k) yss))) = take k (sort_key f (us @ concat yss))"
  using assms
proof (induction yss arbitrary: us)
  case (Cons ys yss)
  have "take k (sort_key f ((us @ take k ys) @ concat (map (take k) yss)))
      = take k (sort_key f ((us @ take k ys) @ concat yss))"
    by (rule Cons.IH) (use Cons.prems in simp)
  also have "\<dots> = take k (sort_key f (us @ ys @ concat yss))"
    using take_sort_key_take_part [of f ys k us "concat yss"] Cons.prems by simp
  finally show ?case by simp
qed simp

end
