(* ===== verification/Keyed_Map.thy ===== *)
theory Keyed_Map
  imports Sort_By "HOL-Library.AList"
begin

text \<open>
  The two map types of the sources and the contracts their users rely on. A \<open>BTreeMap\<close>
  (\<open>serde_json::Map\<close>) is an association list sorted by key, so equal maps are equal lists and
  iteration is in key order. A \<open>HashMap\<close>, \<open>AHashMap\<close> or \<open>DashMap\<close> is an association list with
  distinct keys in insertion order; the real iteration order is unspecified, so no property
  depends on it. The locales state what the components use: lookup after insert
  (\<open>keyed_map\<close>), removal and \<open>retain\<close> (\<open>keyed_store\<close>), and counting by
  \<open>*m.entry(k).or_insert(0) += n\<close> (\<open>counter_map\<close>).
\<close>

section \<open>Contracts\<close>

locale keyed_map =
  fixes empty :: "'m"
    and get :: "'m \<Rightarrow> 'k \<Rightarrow> 'v option"
    and put :: "'k \<Rightarrow> 'v \<Rightarrow> 'm \<Rightarrow> 'm"
    and inv :: "'m \<Rightarrow> bool"
  assumes get_empty: "get empty k = None"
    and get_put: "inv m \<Longrightarrow> get (put k v m) j = (if j = k then Some v else get m j)"
    and inv_empty: "inv empty"
    and inv_put: "inv m \<Longrightarrow> inv (put k v m)"
begin

lemma inv_puts: "inv m \<Longrightarrow> inv (fold (\<lambda>(k, v). put k v) ps m)"
  by (induction ps arbitrary: m) (auto simp: inv_put)

lemma get_puts:
  "inv m \<Longrightarrow> get (fold (\<lambda>(k, v). put k v) ps m) j =
     (case map_of (rev ps) j of Some v \<Rightarrow> Some v | None \<Rightarrow> get m j)"
  by (induction ps arbitrary: m) (auto simp: get_put inv_put map_add_def split: option.splits)

end

locale keyed_store = keyed_map empty get put inv
  for empty :: "'m"
    and get :: "'m \<Rightarrow> 'k \<Rightarrow> 'v option"
    and put :: "'k \<Rightarrow> 'v \<Rightarrow> 'm \<Rightarrow> 'm"
    and inv :: "'m \<Rightarrow> bool" +
  fixes remove :: "'k \<Rightarrow> 'm \<Rightarrow> 'm"
    and retain :: "('k \<Rightarrow> 'v \<Rightarrow> bool) \<Rightarrow> 'm \<Rightarrow> 'm"
  assumes get_remove: "inv m \<Longrightarrow> get (remove k m) j = (if j = k then None else get m j)"
    and inv_remove: "inv m \<Longrightarrow> inv (remove k m)"
    and get_retain: "inv m \<Longrightarrow> get (retain P m) j =
      (case get m j of None \<Rightarrow> None | Some v \<Rightarrow> if P j v then Some v else None)"
    and inv_retain: "inv m \<Longrightarrow> inv (retain P m)"
begin

lemma retain_keeps: "inv m \<Longrightarrow> get m j = Some v \<Longrightarrow> P j v \<Longrightarrow> get (retain P m) j = Some v"
  by (simp add: get_retain)

lemma get_retain_Some:
  "inv m \<Longrightarrow> get (retain P m) j = Some v \<longleftrightarrow> get m j = Some v \<and> P j v"
  by (auto simp: get_retain split: option.splits)

lemma get_remove_Some:
  "inv m \<Longrightarrow> get (remove k m) j = Some v \<longleftrightarrow> j \<noteq> k \<and> get m j = Some v"
  by (auto simp: get_remove)

end

locale counter_map =
  fixes get :: "'m \<Rightarrow> 'k \<Rightarrow> 'c::comm_monoid_add option"
    and bump :: "'k \<Rightarrow> 'c \<Rightarrow> 'm \<Rightarrow> 'm"
    and inv :: "'m \<Rightarrow> bool"
  assumes get_bump: "inv m \<Longrightarrow> get (bump k n m) j =
      (if j = k then Some ((case get m k of None \<Rightarrow> 0 | Some c \<Rightarrow> c) + n) else get m j)"
    and inv_bump: "inv m \<Longrightarrow> inv (bump k n m)"
begin

lemma inv_bumps: "inv m \<Longrightarrow> inv (fold (\<lambda>(k, n). bump k n) ps m)"
  by (induction ps arbitrary: m) (auto simp: inv_bump)

lemma get_bumps:
  "inv m \<Longrightarrow> get (fold (\<lambda>(k, n). bump k n) ps m) j =
     (if get m j = None \<and> j \<notin> fst ` set ps then None
      else Some ((case get m j of None \<Rightarrow> 0 | Some c \<Rightarrow> c) +
                 sum_list (map snd (filter (\<lambda>p. fst p = j) ps))))"
proof (induction ps arbitrary: m)
  case (Cons p ps)
  obtain k n where p: "p = (k, n)" by (cases p)
  have "j \<notin> fst ` set (p # ps) \<longleftrightarrow> j \<noteq> k \<and> j \<notin> fst ` set ps"
    by (auto simp: p)
  then show ?case
    using Cons by (auto simp: p get_bump inv_bump ac_simps split: option.splits)
qed (auto split: option.splits)

end

section \<open>\<open>BTreeMap\<close>\<close>

fun bt_put :: "'k::linorder \<Rightarrow> 'v \<Rightarrow> ('k \<times> 'v) list \<Rightarrow> ('k \<times> 'v) list" where
  "bt_put k v [] = [(k, v)]"
| "bt_put k v (e # m) =
     (case cmp_of k (fst e) of
        Less \<Rightarrow> (k, v) # e # m
      | Equal \<Rightarrow> (k, v) # m
      | Greater \<Rightarrow> e # bt_put k v m)"

definition bt_get :: "('k \<times> 'v) list \<Rightarrow> 'k \<Rightarrow> 'v option" where
  "bt_get m k = map_of m k"

definition bt_inv :: "('k::linorder \<times> 'v) list \<Rightarrow> bool" where
  "bt_inv m = sorted_wrt (<) (map fst m)"

text \<open>\<open>entry(k).or_insert(d)\<close>: a present key keeps its value.\<close>

definition bt_entry_or :: "'k::linorder \<Rightarrow> 'v \<Rightarrow> ('k \<times> 'v) list \<Rightarrow> 'v" where
  "bt_entry_or k d m = (case bt_get m k of Some v \<Rightarrow> v | None \<Rightarrow> d)"

lemma bt_get_put: "bt_get (bt_put k v m) j = (if j = k then Some v else bt_get m j)"
  by (induction m) (auto simp: bt_get_def split: ordering.splits)

lemma keys_bt_put: "fst ` set (bt_put k v m) = insert k (fst ` set m)"
  by (induction m) (auto simp: insert_commute image_iff split: ordering.splits)

lemma bt_inv_put: "bt_inv m \<Longrightarrow> bt_inv (bt_put k v m)"
proof (induction m)
  case (Cons e m)
  have "\<forall>j \<in> fst ` set (bt_put k v m). fst e < j" if "fst e < k"
    using Cons.prems that by (auto simp: keys_bt_put bt_inv_def)
  with Cons show ?case
    by (auto simp: bt_inv_def split: ordering.splits intro: order.strict_trans)
qed (simp add: bt_inv_def)

lemma bt_inv_Nil [simp]: "bt_inv []"
  by (simp add: bt_inv_def)

lemma bt_inv_Cons: "bt_inv (e # m) \<longleftrightarrow> (\<forall>j \<in> fst ` set m. fst e < j) \<and> bt_inv m"
  by (auto simp: bt_inv_def)

lemma bt_get_Nil [simp]: "bt_get [] k = None"
  by (simp add: bt_get_def)

lemma bt_get_Cons: "bt_get (e # m) k = (if k = fst e then Some (snd e) else bt_get m k)"
  by (cases e) (simp add: bt_get_def)

lemma bt_get_None: "bt_get m k = None \<longleftrightarrow> k \<notin> fst ` set m"
  by (simp add: bt_get_def map_of_eq_None_iff)

lemma bt_get_mem: "bt_get m k = Some v \<Longrightarrow> (k, v) \<in> set m"
  by (simp add: bt_get_def map_of_SomeD)

lemma set_bt_put: "set (bt_put k v m) \<subseteq> insert (k, v) (set m)"
  by (induction m) (auto split: ordering.splits)

text \<open>Two sorted maps with the same lookups are the same map.\<close>

lemma alist_of_lookups:
  "distinct (map fst m) \<Longrightarrow> m = map (\<lambda>k. (k, the (map_of m k))) (map fst m)"
proof (rule nth_equalityI)
  fix i
  assume distinct: "distinct (map fst m)" and i: "i < length m"
  then have "map_of m (fst (m ! i)) = Some (snd (m ! i))"
    by (simp add: map_of_eq_Some_iff)
  with i show "m ! i = map (\<lambda>k. (k, the (map_of m k))) (map fst m) ! i"
    by simp
qed simp

lemma bt_ext:
  assumes "bt_inv m" "bt_inv n" and same: "\<And>k. bt_get m k = bt_get n k"
  shows "m = n"
proof -
  have "fst ` set m = fst ` set n"
    using bt_get_None [of m] bt_get_None [of n] same by (metis set_eqI)
  then have keys: "map fst m = map fst n"
    using assms(1,2) by (intro strict_sorted_equal) (simp_all add: bt_inv_def)
  have distinct: "distinct (map fst m)" "distinct (map fst n)"
    using assms(1,2) strict_sorted_iff by (auto simp: bt_inv_def)
  have "map (\<lambda>k. (k, the (bt_get m k))) (map fst m) = map (\<lambda>k. (k, the (bt_get n k))) (map fst n)"
    by (simp only: keys same)
  then show ?thesis
    unfolding bt_get_def
    by (simp only: alist_of_lookups [OF distinct(1), symmetric] alist_of_lookups [OF distinct(2), symmetric])
qed

interpretation btree: keyed_map "[] :: ('k::linorder \<times> 'v) list" bt_get bt_put bt_inv
  by unfold_locales (simp_all add: bt_get_put bt_inv_put)

section \<open>\<open>HashMap\<close>, \<open>AHashMap\<close>, \<open>DashMap\<close>\<close>

definition hm_get :: "('k \<times> 'v) list \<Rightarrow> 'k \<Rightarrow> 'v option" where
  "hm_get m k = map_of m k"

definition hm_put :: "'k \<Rightarrow> 'v \<Rightarrow> ('k \<times> 'v) list \<Rightarrow> ('k \<times> 'v) list" where
  "hm_put k v m = AList.update k v m"

definition hm_remove :: "'k \<Rightarrow> ('k \<times> 'v) list \<Rightarrow> ('k \<times> 'v) list" where
  "hm_remove k m = filter (\<lambda>e. fst e \<noteq> k) m"

definition hm_retain :: "('k \<Rightarrow> 'v \<Rightarrow> bool) \<Rightarrow> ('k \<times> 'v) list \<Rightarrow> ('k \<times> 'v) list" where
  "hm_retain P m = filter (\<lambda>e. P (fst e) (snd e)) m"

definition hm_inv :: "('k \<times> 'v) list \<Rightarrow> bool" where
  "hm_inv m = distinct (map fst m)"

text \<open>\<open>*m.entry(k).or_insert(0) += n\<close>.\<close>

definition hm_bump :: "'k \<Rightarrow> 'c::comm_monoid_add \<Rightarrow> ('k \<times> 'c) list \<Rightarrow> ('k \<times> 'c) list" where
  "hm_bump k n m = hm_put k ((case hm_get m k of None \<Rightarrow> 0 | Some c \<Rightarrow> c) + n) m"

lemma map_of_filter_Some:
  "distinct (map fst m) \<Longrightarrow>
   map_of (filter P m) k = (case map_of m k of None \<Rightarrow> None | Some v \<Rightarrow> if P (k, v) then Some v else None)"
  by (induction m) (auto split: option.splits simp: map_of_eq_None_iff image_iff)

lemma distinct_map_filter_fst: "distinct (map fst m) \<Longrightarrow> distinct (map fst (filter P m))"
  by (induction m) auto

interpretation hmap: keyed_store "[] :: ('k \<times> 'v) list" hm_get hm_put hm_inv hm_remove hm_retain
proof (unfold_locales, goal_cases)
  case (5 m k j)
  then show ?case
    by (auto simp: hm_get_def hm_remove_def hm_inv_def map_of_filter_Some split: option.splits)
next
  case (7 m P j)
  then show ?case
    by (auto simp: hm_get_def hm_retain_def hm_inv_def map_of_filter_Some split: option.splits)
qed (auto simp: hm_get_def hm_put_def hm_inv_def hm_remove_def hm_retain_def update_conv'
      distinct_update distinct_map_filter_fst)

interpretation hcount: counter_map
  "hm_get :: ('k \<times> 'c::comm_monoid_add) list \<Rightarrow> _" hm_bump hm_inv
  by unfold_locales (simp_all add: hm_bump_def hmap.get_put hmap.inv_put)

lemma hm_get_mem: "hm_inv m \<Longrightarrow> hm_get m k = Some v \<longleftrightarrow> (k, v) \<in> set m"
  by (simp add: hm_get_def hm_inv_def)

lemma hm_get_Nil [simp]: "hm_get [] k = None"
  by (simp add: hm_get_def)

lemma hm_inv_Nil [simp]: "hm_inv []"
  by (simp add: hm_inv_def)

end
