(* ===== verification/Json.thy ===== *)
theory Json
  imports Keyed_Map
begin

text \<open>
  \<open>serde_json::Value\<close>, the public data type the node and the ingestor match on. Built without the
  \<open>preserve_order\<close> feature (\<open>rust/Cargo.lock\<close>), an object is a \<open>BTreeMap\<close>. \<open>json_eq\<close> is the derived
  \<open>PartialEq\<close>: floats compare as IEEE values, so it is coarser than equality of the data (\<open>0.0\<close> and
  \<open>-0.0\<close>). The parser and the printer are third-party code: every definition that calls them
  takes them as a \<open>serde\<close> record, and properties that need more than their types name the law
  they need.
\<close>

section \<open>Values\<close>

datatype number = PosInt u64 | NegInt i64 | Float f64

datatype json =
    JNull
  | JBool bool
  | JNumber number
  | JString string
  | JArray "json list"
  | JObject "(string \<times> json) list"

type_synonym obj = "(string \<times> json) list"

record serde =
  from_str :: "string \<Rightarrow> json option"
  to_string :: "json \<Rightarrow> string"

text \<open>\<open>serde_json::from_str::<Vec<Value>>\<close>: a text that is not a JSON array is an error.\<close>

definition from_str_vec :: "serde \<Rightarrow> string \<Rightarrow> json list option" where
  "from_str_vec S s =
     (case from_str S s of Some (JArray xs) \<Rightarrow> Some xs | _ \<Rightarrow> None)"

section \<open>Equality\<close>

fun number_eq :: "number \<Rightarrow> number \<Rightarrow> bool" where
  "number_eq (PosInt a) (PosInt b) = (a = b)"
| "number_eq (NegInt a) (NegInt b) = (a = b)"
| "number_eq (Float a) (Float b) = f64_eq a b"
| "number_eq _ _ = False"

lemma size_snd_mem [termination_simp]:
  "e \<in> set m \<Longrightarrow> size (snd e) < Suc (size_list (size_prod (\<lambda>x. 0) size) m)"
  by (rule le_imp_less_Suc, rule size_list_estimation') (auto simp: size_prod_simp)

fun json_eq :: "json \<Rightarrow> json \<Rightarrow> bool" where
  "json_eq JNull JNull = True"
| "json_eq (JBool a) (JBool b) = (a = b)"
| "json_eq (JNumber a) (JNumber b) = number_eq a b"
| "json_eq (JString a) (JString b) = (a = b)"
| "json_eq (JArray xs) (JArray ys) = list_all2 json_eq xs ys"
| "json_eq (JObject m) (JObject n) =
     list_all2 (\<lambda>e f. fst e = fst f \<and> json_eq (snd e) (snd f)) m n"
| "json_eq _ _ = False"

text \<open>\<open>slice::contains\<close>.\<close>

definition contains :: "json list \<Rightarrow> json \<Rightarrow> bool" where
  "contains xs x = list_ex (\<lambda>y. json_eq y x) xs"

section \<open>Well-formed values\<close>

text \<open>What every value built by the code satisfies: object keys are strictly sorted, negative
  integers are negative, floats are numbers.\<close>

fun number_wf :: "number \<Rightarrow> bool" where
  "number_wf (PosInt a) = True"
| "number_wf (NegInt a) = (sint a < 0)"
| "number_wf (Float a) = (\<not> f64_is_nan a)"

fun json_wf :: "json \<Rightarrow> bool" where
  "json_wf JNull = True"
| "json_wf (JBool b) = True"
| "json_wf (JNumber n) = number_wf n"
| "json_wf (JString s) = True"
| "json_wf (JArray xs) = list_all json_wf xs"
| "json_wf (JObject m) = (bt_inv m \<and> list_all (\<lambda>e. json_wf (snd e)) m)"

section \<open>Accessors\<close>

fun json_get :: "string \<Rightarrow> json \<Rightarrow> json option" where
  "json_get k (JObject m) = bt_get m k"
| "json_get k _ = None"

fun as_array :: "json \<Rightarrow> json list option" where
  "as_array (JArray xs) = Some xs"
| "as_array _ = None"

fun as_str :: "json \<Rightarrow> string option" where
  "as_str (JString s) = Some s"
| "as_str _ = None"

fun as_u64 :: "json \<Rightarrow> u64 option" where
  "as_u64 (JNumber (PosInt n)) = Some n"
| "as_u64 _ = None"

fun as_i64 :: "json \<Rightarrow> i64 option" where
  "as_i64 (JNumber (PosInt n)) = i64_try_from n"
| "as_i64 (JNumber (NegInt n)) = Some n"
| "as_i64 _ = None"

definition first_elem :: "json list \<Rightarrow> json option" where
  "first_elem xs = (case xs of [] \<Rightarrow> None | x # _ \<Rightarrow> Some x)"

text \<open>\<open>Number::from(i64)\<close> and \<open>Number::from(u64)\<close>.\<close>

definition number_of_i64 :: "i64 \<Rightarrow> number" where
  "number_of_i64 x = (if sint x < 0 then NegInt x else PosInt x)"

lemma as_i64_of_i64 [simp]: "as_i64 (JNumber (number_of_i64 x)) = Some x"
  using sint_i64_range(2) [of x]
  by (auto simp: number_of_i64_def i64_try_from_def uint_of_nonneg_i64 not_less)

section \<open>\<open>json_eq\<close> is an equivalence on well-formed values\<close>

lemma number_eq_refl: "number_wf n \<Longrightarrow> number_eq n n"
  by (cases n) auto

lemma number_eq_sym: "number_eq m n \<Longrightarrow> number_eq n m"
  by (cases m; cases n) (auto intro: f64_eq_sym)

lemma number_eq_trans: "number_eq l m \<Longrightarrow> number_eq m n \<Longrightarrow> number_eq l n"
  by (cases l; cases m; cases n) (auto intro: f64_eq_trans)

lemma json_eq_refl: "json_wf v \<Longrightarrow> json_eq v v"
  by (induction v rule: json_wf.induct)
    (auto simp: number_eq_refl list_all_iff list.rel_refl_strong intro!: list.rel_refl_strong)

lemma json_eq_sym: "json_eq u v \<Longrightarrow> json_eq v u"
proof (induction u v rule: json_eq.induct)
  case (5 xs ys)
  then show ?case by (auto simp: list_all2_conv_all_nth)
next
  case (6 m n)
  then show ?case by (auto simp: list_all2_conv_all_nth)
qed (auto intro: number_eq_sym)

lemma list_all2_trans_mem:
  assumes "list_all2 P xs ys" "list_all2 Q ys zs"
    and "\<And>x y z. x \<in> set xs \<Longrightarrow> y \<in> set ys \<Longrightarrow> P x y \<Longrightarrow> Q y z \<Longrightarrow> R x z"
  shows "list_all2 R xs zs"
  using assms
proof (induction xs arbitrary: ys zs)
  case (Cons x xs)
  then obtain y ys' z zs' where "ys = y # ys'" "zs = z # zs'" "P x y" "Q y z"
    and tails: "list_all2 P xs ys'" "list_all2 Q ys' zs'"
    by (auto simp: list_all2_Cons1)
  moreover have "R u w" if "u \<in> set xs" "v \<in> set ys'" "P u v" "Q v w" for u v w
    using that \<open>ys = y # ys'\<close> by (intro Cons.prems(3) [of u v w]) simp_all
  then have "list_all2 R xs zs'"
    using Cons.IH [OF tails] by blast
  ultimately show ?case using Cons.prems(3) [of x y z] by simp
qed (simp add: list_all2_Cons1)

lemma json_eq_trans: "json_eq u v \<Longrightarrow> json_eq v w \<Longrightarrow> json_eq u w"
proof (induction u v arbitrary: w rule: json_eq.induct)
  case (3 a b)
  then show ?case by (cases w) (auto intro: number_eq_trans)
next
  case (5 xs ys)
  from 5(3) obtain zs where w: "w = JArray zs" "list_all2 json_eq ys zs" by (cases w) auto
  have "list_all2 json_eq xs zs"
    by (rule list_all2_trans_mem [of json_eq xs ys json_eq]) (use 5(2) w(2) in simp, rule w(2), rule 5(1))
  then show ?case by (simp add: w)
next
  case (6 m n)
  let ?P = "\<lambda>e f. fst e = fst f \<and> json_eq (snd e) (snd f)"
  from 6(3) obtain k where w: "w = JObject k" "list_all2 ?P n k" by (cases w) auto
  have "list_all2 ?P m k"
  proof (rule list_all2_trans_mem [of ?P m n ?P])
    show "list_all2 ?P m n" using 6(2) by simp
    show "list_all2 ?P n k" by (rule w(2))
    show "fst e = fst g \<and> json_eq (snd e) (snd g)"
      if "e \<in> set m" "f \<in> set n" "fst e = fst f \<and> json_eq (snd e) (snd f)"
        "fst f = fst g \<and> json_eq (snd f) (snd g)" for e f g
      using that 6(1) [of e f "snd g"] by simp
  qed
  then show ?case by (simp add: w)
qed auto

lemma contains_iff: "contains xs x \<longleftrightarrow> (\<exists>y \<in> set xs. json_eq y x)"
  by (simp add: contains_def list_ex_iff)

lemma contains_cong: "json_eq x y \<Longrightarrow> contains xs x = contains xs y"
  using json_eq_sym json_eq_trans unfolding contains_iff by blast

lemma contains_append: "contains (xs @ ys) x \<longleftrightarrow> contains xs x \<or> contains ys x"
  by (auto simp: contains_def)

lemma contains_Nil [simp]: "\<not> contains [] x"
  by (simp add: contains_def)

lemma contains_self: "json_wf x \<Longrightarrow> x \<in> set xs \<Longrightarrow> contains xs x"
  by (auto simp: contains_iff intro: json_eq_refl)

lemma json_wf_put:
  "bt_inv m \<Longrightarrow> list_all (\<lambda>e. json_wf (snd e)) m \<Longrightarrow> json_wf v \<Longrightarrow> json_wf (JObject (bt_put k v m))"
  using set_bt_put [of k v m] by (auto simp: bt_inv_put list_all_iff)

lemma json_wf_object_put: "json_wf (JObject m) \<Longrightarrow> json_wf v \<Longrightarrow> json_wf (JObject (bt_put k v m))"
  by (rule json_wf_put) simp_all

lemma json_wf_empty: "json_wf (JObject [])"
  by simp

lemma json_wf_bt_get:
  "json_wf (JObject m) \<Longrightarrow> bt_get m k = Some v \<Longrightarrow> json_wf v"
  by (auto simp: list_all_iff dest!: bt_get_mem)

end
