(* ===== verification/Document.thy ===== *)
theory Document
  imports Json
begin

text \<open>
  The document algebra of the node (\<open>merge_json\<close> and \<open>apply_collection_deltas\<close> in
  \<open>node/src/engine/core.rs\<close>): how an upsert's payload and its collection deltas change the stored
  JSON. The lemmas give the member-wise meaning of the merge, its idempotence (a replayed payload
  changes nothing), the set-theoretic meaning of a delta (tombstone, then remove, then add), and
  that both keep a value well-formed.
\<close>

named_theorems doc_simps \<open>the member-wise equations of merge and deltas\<close>

section \<open>\<open>merge_json\<close>\<close>

text \<open>The \<open>for (k, v) in b\<close> loop calls \<open>merge_json\<close> on \<open>a.entry(k).or_insert(Null)\<close>.\<close>

function (sequential) merge_json :: "json \<Rightarrow> json \<Rightarrow> json"
  and merge_members :: "obj \<Rightarrow> obj \<Rightarrow> obj" where
  "merge_json (JObject a) (JObject b) = JObject (merge_members a b)"
| "merge_json a b = b"
| "merge_members a [] = a"
| "merge_members a ((k, v) # b) =
     merge_members (bt_put k (merge_json (bt_entry_or k JNull a) v) a) b"
  by pat_completeness auto
termination
  by (relation "measure (\<lambda>x. case x of Inl (a, b) \<Rightarrow> size b
        | Inr (a, b) \<Rightarrow> size_list (size_prod (\<lambda>x. 0) size) b)") auto

lemma merge_json_scalar: "(\<nexists>m. a = JObject m) \<or> (\<nexists>n. b = JObject n) \<Longrightarrow> merge_json a b = b"
  by (cases a; cases b) auto

lemma merge_json_Null [doc_simps]: "merge_json JNull v = v"
  by (simp add: merge_json_scalar)

text \<open>The member-wise meaning: a key of the patch is merged into the value at hand, every other
  key stays.\<close>

lemma merge_members_get [doc_simps]:
  assumes "bt_inv b"
  shows "bt_get (merge_members a b) k =
    (case bt_get b k of
       None \<Rightarrow> bt_get a k
     | Some v \<Rightarrow> Some (merge_json (bt_entry_or k JNull a) v))"
  using assms
proof (induction b arbitrary: a)
  case (Cons e b)
  obtain j v where e: "e = (j, v)" by (cases e)
  have "bt_get b j = None"
    using Cons.prems by (auto simp: bt_inv_Cons e bt_get_None)
  then show ?case
    using Cons by (auto simp: e bt_get_put bt_get_Cons bt_inv_Cons bt_entry_or_def split: option.splits)
qed simp

lemma merge_members_inv: "bt_inv a \<Longrightarrow> bt_inv (merge_members a b)"
  by (induction b arbitrary: a) (auto simp: bt_inv_put)

lemma merge_json_wf:
  "json_wf a \<Longrightarrow> json_wf b \<Longrightarrow> json_wf (merge_json a b)"
  "json_wf (JObject m) \<Longrightarrow> list_all (\<lambda>e. json_wf (snd e)) n \<Longrightarrow> json_wf (JObject (merge_members m n))"
proof (induction a b and m n rule: merge_json_merge_members.induct)
  case (4 m k v n)
  have "json_wf (bt_entry_or k JNull m)"
    using "4.prems"(1) by (auto simp: bt_entry_or_def split: option.splits intro: json_wf_bt_get)
  then have "json_wf (JObject (bt_put k (merge_json (bt_entry_or k JNull m) v) m))"
    using 4 by (intro json_wf_put) simp_all
  with 4 show ?case by simp
qed auto

text \<open>Applying the same patch again changes nothing.\<close>

lemma merge_json_twice:
  "json_wf a \<Longrightarrow> json_wf b \<Longrightarrow> merge_json (merge_json a b) b = merge_json a b"
proof (induction b arbitrary: a)
  case (JObject n)
  have n: "bt_inv n" using JObject.prems(2) by simp
  have self: "merge_members n n = n"
  proof (rule bt_ext)
    show "bt_inv (merge_members n n)" "bt_inv n" using n by (simp_all add: merge_members_inv)
    show "bt_get (merge_members n n) k = bt_get n k" for k
    proof (cases "bt_get n k")
      case (Some v)
      then have "(k, v) \<in> set n" by (rule bt_get_mem)
      moreover from this have "json_wf v" using JObject.prems(2) by (auto simp: list_all_iff)
      ultimately have "merge_json (merge_json JNull v) v = merge_json JNull v"
        using JObject.IH [of "(k, v)" v JNull] by (simp add: snds.simps)
      then show ?thesis using n Some by (simp add: merge_members_get bt_entry_or_def merge_json_Null)
    qed (use n in \<open>simp add: merge_members_get\<close>)
  qed
  show ?case
  proof (cases a)
    case (JObject m)
    have m: "bt_inv m" using JObject \<open>json_wf a\<close> by simp
    have "merge_members (merge_members m n) n = merge_members m n"
    proof (rule bt_ext)
      show "bt_inv (merge_members (merge_members m n) n)" "bt_inv (merge_members m n)"
        using m by (simp_all add: merge_members_inv)
      show "bt_get (merge_members (merge_members m n) n) k = bt_get (merge_members m n) k" for k
      proof (cases "bt_get n k")
        case (Some v)
        then have "(k, v) \<in> set n" by (rule bt_get_mem)
        moreover from this have "json_wf v" using JObject.prems(2) by (auto simp: list_all_iff)
        moreover have "json_wf (bt_entry_or k JNull m)"
          using \<open>json_wf a\<close> JObject
          by (auto simp: bt_entry_or_def split: option.splits intro: json_wf_bt_get)
        ultimately have "merge_json (merge_json (bt_entry_or k JNull m) v) v = merge_json (bt_entry_or k JNull m) v"
          using JObject.IH [of "(k, v)" v "bt_entry_or k JNull m"] by (simp add: snds.simps)
        then show ?thesis using n Some by (simp add: merge_members_get bt_entry_or_def)
      qed (use n in \<open>simp add: merge_members_get\<close>)
    qed
    then show ?thesis using JObject by simp
  qed (simp_all add: self)
qed (simp_all add: merge_json_scalar)

section \<open>\<open>apply_collection_deltas\<close>\<close>

text \<open>The \<open>CollectionDelta\<close> message of \<open>service.proto\<close>, as \<open>build.rs\<close> generates it.\<close>

record collection_delta =
  column :: string
  tombstoned :: bool
  added_elements_json :: string
  deleted_elements_json :: string

text \<open>\<open>elements.retain(|elem| !deleted.contains(elem))\<close>, guarded by a non-empty text that parses.\<close>

definition remove_deleted :: "serde \<Rightarrow> string \<Rightarrow> json list \<Rightarrow> json list" where
  "remove_deleted S txt elements =
     (if txt = [] then elements
      else case from_str_vec S txt of
        None \<Rightarrow> elements
      | Some deleted \<Rightarrow> filter (\<lambda>elem. \<not> contains deleted elem) elements)"

text \<open>\<open>for elem in added { if !elements.contains(&elem) { elements.push(elem) } }\<close>.\<close>

fun push_new :: "json list \<Rightarrow> json list \<Rightarrow> json list" where
  "push_new elements [] = elements"
| "push_new elements (elem # added) =
     push_new (if contains elements elem then elements else elements @ [elem]) added"

definition add_elements :: "serde \<Rightarrow> string \<Rightarrow> json list \<Rightarrow> json list" where
  "add_elements S txt elements =
     (if txt = [] then elements
      else case from_str_vec S txt of
        None \<Rightarrow> elements
      | Some added \<Rightarrow> push_new elements added)"

definition existing_elements :: "string \<Rightarrow> obj \<Rightarrow> json list" where
  "existing_elements col m =
     (case as_array (bt_entry_or col (JArray []) m) of Some arr \<Rightarrow> arr | None \<Rightarrow> [])"

definition delta_elements :: "serde \<Rightarrow> collection_delta \<Rightarrow> json list \<Rightarrow> json list" where
  "delta_elements S delta elements =
     add_elements S (added_elements_json delta)
       (remove_deleted S (deleted_elements_json delta)
         (if tombstoned delta then [] else elements))"

definition apply_delta :: "serde \<Rightarrow> collection_delta \<Rightarrow> obj \<Rightarrow> obj" where
  "apply_delta S delta m =
     bt_put (column delta) (JArray (delta_elements S delta (existing_elements (column delta) m))) m"

definition apply_collection_deltas :: "serde \<Rightarrow> collection_delta list \<Rightarrow> json \<Rightarrow> json" where
  "apply_collection_deltas S deltas doc =
     (case doc of JObject m \<Rightarrow> JObject (fold (apply_delta S) deltas m) | _ \<Rightarrow> doc)"

subsection \<open>Elements\<close>

definition all_wf :: "json list \<Rightarrow> bool" where
  "all_wf xs = list_all json_wf xs"

text \<open>No element twice, up to \<open>PartialEq\<close>.\<close>

definition no_dups :: "json list \<Rightarrow> bool" where
  "no_dups xs = sorted_wrt (\<lambda>x y. \<not> json_eq x y) xs"

lemma contains_push_new [doc_simps]:
  "all_wf added \<Longrightarrow> contains (push_new elements added) x \<longleftrightarrow> contains elements x \<or> contains added x"
proof (induction elements added rule: push_new.induct)
  case (2 elements elem added)
  have "contains elements elem \<Longrightarrow> json_eq elem x \<Longrightarrow> contains elements x"
    using contains_cong by blast
  moreover have "contains (elem # added) x \<longleftrightarrow> json_eq elem x \<or> contains added x"
    by (simp add: contains_def)
  moreover have "contains (elements @ [elem]) x \<longleftrightarrow> contains elements x \<or> json_eq elem x"
    by (auto simp: contains_append contains_def)
  ultimately show ?case
    using 2 by (auto simp: all_wf_def)
qed simp

lemma no_dups_push_new: "no_dups elements \<Longrightarrow> no_dups (push_new elements added)"
  by (induction elements added rule: push_new.induct)
    (auto simp: no_dups_def sorted_wrt_append contains_iff)

lemma no_dups_filter: "no_dups xs \<Longrightarrow> no_dups (filter P xs)"
  by (simp add: no_dups_def sorted_wrt_filter)

lemma all_wf_push_new: "all_wf xs \<Longrightarrow> all_wf ys \<Longrightarrow> all_wf (push_new xs ys)"
  by (induction xs ys rule: push_new.induct) (auto simp: all_wf_def)

lemma push_new_prefix: "\<exists>zs. push_new xs ys = xs @ zs \<and> set zs \<subseteq> set ys"
proof (induction xs ys rule: push_new.induct)
  case (2 elements elem added)
  then show ?case by (cases "contains elements elem") force+
qed simp

lemma contains_filter_not [doc_simps]:
  "contains (filter (\<lambda>e. \<not> contains deleted e) xs) x \<longleftrightarrow> contains xs x \<and> \<not> contains deleted x"
  using contains_cong by (fastforce simp: contains_iff)

text \<open>What the parsed element lists of a delta are: an absent or unparsable text is no element.\<close>

definition parsed_elements :: "serde \<Rightarrow> string \<Rightarrow> json list" where
  "parsed_elements S txt =
     (if txt = [] then [] else case from_str_vec S txt of None \<Rightarrow> [] | Some xs \<Rightarrow> xs)"

lemma remove_deleted_parsed:
  "remove_deleted S txt xs = filter (\<lambda>e. \<not> contains (parsed_elements S txt) e) xs"
  by (auto simp: remove_deleted_def parsed_elements_def split: option.splits)

lemma add_elements_parsed: "add_elements S txt xs = push_new xs (parsed_elements S txt)"
  by (auto simp: add_elements_def parsed_elements_def split: option.splits)

lemmas delta_defs = delta_elements_def remove_deleted_parsed add_elements_parsed

lemma contains_delta_elements [doc_simps]:
  "all_wf (parsed_elements S (added_elements_json d)) \<Longrightarrow>
   contains (delta_elements S d xs) x \<longleftrightarrow>
     contains (parsed_elements S (added_elements_json d)) x \<or>
     (\<not> tombstoned d \<and> contains xs x \<and> \<not> contains (parsed_elements S (deleted_elements_json d)) x)"
  by (auto simp: delta_defs doc_simps)

subsection \<open>Documents\<close>

lemma apply_delta_get [doc_simps]:
  "bt_get (apply_delta S d m) k =
     (if k = column d then Some (JArray (delta_elements S d (existing_elements k m))) else bt_get m k)"
  by (auto simp: apply_delta_def bt_get_put)

lemma apply_delta_other: "k \<noteq> column d \<Longrightarrow> existing_elements k (apply_delta S d m) = existing_elements k m"
  by (simp add: existing_elements_def bt_entry_or_def apply_delta_get)

lemma apply_delta_same:
  "existing_elements (column d) (apply_delta S d m) = delta_elements S d (existing_elements (column d) m)"
  by (simp add: existing_elements_def [of _ "apply_delta S d m"] bt_entry_or_def apply_delta_get)

text \<open>The deltas of one column, in order, act on that column's elements only.\<close>

lemma existing_elements_fold:
  "existing_elements k (fold (apply_delta S) ds m) =
     fold (delta_elements S) (filter (\<lambda>d. column d = k) ds) (existing_elements k m)"
  by (induction ds arbitrary: m) (auto simp: apply_delta_other apply_delta_same)

lemma fold_delta_get:
  "bt_get (fold (apply_delta S) ds m) k =
     (if k \<in> column ` set ds
      then Some (JArray (fold (delta_elements S) (filter (\<lambda>d. column d = k) ds) (existing_elements k m)))
      else bt_get m k)"
proof (induction ds arbitrary: m)
  case (Cons d ds)
  show ?case
  proof (cases "column d = k")
    case True
    then have "existing_elements k (apply_delta S d m) = delta_elements S d (existing_elements k m)"
      using apply_delta_same by blast
    moreover have "filter (\<lambda>d. column d = k) ds = []" if "k \<notin> column ` set ds"
      using that by (auto simp: filter_empty_conv)
    ultimately show ?thesis using True by (simp add: Cons apply_delta_get)
  next
    case False
    then show ?thesis by (auto simp: Cons apply_delta_get apply_delta_other)
  qed
qed simp

text \<open>\<open>serde\<close> parses into well-formed values: \<open>from_str\<close> builds a \<open>BTreeMap\<close> and refuses NaN.\<close>

definition serde_wf :: "serde \<Rightarrow> bool" where
  "serde_wf S = (\<forall>s v. from_str S s = Some v \<longrightarrow> json_wf v)"

lemma parsed_elements_wf: "serde_wf S \<Longrightarrow> all_wf (parsed_elements S txt)"
  by (fastforce simp: serde_wf_def parsed_elements_def from_str_vec_def all_wf_def
      split: option.splits json.splits)

lemma existing_elements_wf:
  assumes "json_wf (JObject m)"
  shows "all_wf (existing_elements k m)"
proof (cases "bt_get m k")
  case (Some v)
  then have "json_wf v" using assms by (rule json_wf_bt_get [rotated])
  then show ?thesis
    by (cases v) (simp_all add: Some existing_elements_def bt_entry_or_def all_wf_def)
qed (simp add: existing_elements_def bt_entry_or_def all_wf_def)

lemma delta_elements_wf: "serde_wf S \<Longrightarrow> all_wf xs \<Longrightarrow> all_wf (delta_elements S d xs)"
  by (auto simp: delta_defs intro!: all_wf_push_new parsed_elements_wf) (auto simp: all_wf_def list_all_iff)

lemma delta_elements_no_dups: "no_dups xs \<Longrightarrow> no_dups (delta_elements S d xs)"
  by (auto simp: delta_defs intro!: no_dups_push_new no_dups_filter) (simp add: no_dups_def)

lemma apply_delta_wf:
  "serde_wf S \<Longrightarrow> json_wf (JObject m) \<Longrightarrow> json_wf (JObject (apply_delta S d m))"
  unfolding apply_delta_def
  using delta_elements_wf [OF _ existing_elements_wf]
  by (intro json_wf_put) (auto simp: all_wf_def)

lemma apply_collection_deltas_wf:
  "serde_wf S \<Longrightarrow> json_wf doc \<Longrightarrow> json_wf (apply_collection_deltas S ds doc)"
proof (cases doc)
  case (JObject m)
  assume S: "serde_wf S" and "json_wf doc"
  then have "json_wf (JObject m)" using JObject by simp
  then have "json_wf (JObject (fold (apply_delta S) ds m))"
    using S by (induction ds arbitrary: m) (simp_all del: json_wf.simps add: apply_delta_wf)
  with JObject show ?thesis by (simp add: apply_collection_deltas_def)
qed (simp_all add: apply_collection_deltas_def)

text \<open>\<open>serde\<close> reads back what it printed.\<close>

definition serde_roundtrip :: "serde \<Rightarrow> bool" where
  "serde_roundtrip S = (\<forall>v. json_wf v \<longrightarrow> from_str S (to_string S v) = Some v)"

end
