(* ===== verification/Index.thy ===== *)
theory Index
  imports Document
begin

text \<open>
  The messages of \<open>service.proto\<close> that reach the engine, and the Tantivy index it drives. Tantivy
  is a third-party crate: its operations are a \<open>tantivy\<close> record that every definition using them
  takes as an argument, over an unknown index state \<open>'w\<close>, document address \<open>'a\<close> and document
  \<open>'d\<close>. \<open>writer_laws\<close> and \<open>reader_laws\<close> state the documented behaviour in terms of three views of the index: what
  the writer will publish next (\<open>pending\<close>), what the last commit published (\<open>committed\<close>) and
  what the reader has loaded (\<open>visible\<close>); the reload policy \<open>OnCommitWithDelay\<close> makes the
  last step a separate, later event. \<open>Reference_Index\<close> has an instance of the laws.
\<close>

section \<open>Messages\<close>

datatype op_type = OpUnspecified | OpUpsert | OpDelete | OpPartitionDelete

text \<open>\<open>OpType::try_from(i32)\<close> and the cast back, as \<open>prost\<close> generates them from the enum.\<close>

definition op_type_try_from :: "i32 \<Rightarrow> op_type option" where
  "op_type_try_from n =
     (if n = 0 then Some OpUnspecified
      else if n = 1 then Some OpUpsert
      else if n = 2 then Some OpDelete
      else if n = 3 then Some OpPartitionDelete
      else None)"

fun op_type_as_i32 :: "op_type \<Rightarrow> i32" where
  "op_type_as_i32 OpUnspecified = 0"
| "op_type_as_i32 OpUpsert = 1"
| "op_type_as_i32 OpDelete = 2"
| "op_type_as_i32 OpPartitionDelete = 3"

lemma op_type_roundtrip [simp]: "op_type_try_from (op_type_as_i32 t) = Some t"
  by (cases t) (simp_all add: op_type_try_from_def)

record index_operation =
  op_id :: string
  op_op_type :: i32
  op_writetime :: u64
  op_cdc_ttl :: "i64 option"
  op_payload_json :: string
  op_collection_deltas :: "collection_delta list"
  op_partition_key :: "string option"

record index_batch_response =
  processed_count :: u32
  skipped_count :: u32
  success :: bool

definition op_type_of :: "index_operation \<Rightarrow> op_type" where
  "op_type_of op = (case op_type_try_from (op_op_type op) of Some t \<Rightarrow> t | None \<Rightarrow> OpUnspecified)"

section \<open>The index\<close>

datatype field = FieldId | FieldPartitionKey

record ('w, 'a, 'd) tantivy =
  delete_term :: "field \<Rightarrow> string \<Rightarrow> 'w \<Rightarrow> 'w"
  add_document :: "'d \<Rightarrow> 'w \<Rightarrow> string + 'w"
  commit :: "'w \<Rightarrow> (string + u64) \<times> 'w"
  delete_until :: "i64 \<Rightarrow> 'w \<Rightarrow> (string + u64) \<times> 'w" \<comment> \<open>\<open>delete_query\<close> of \<open>expires_at\<close> up to a time\<close>
  reload :: "'w \<Rightarrow> 'w"
  term_search :: "'w \<Rightarrow> field \<Rightarrow> string \<Rightarrow> string + 'a list" \<comment> \<open>\<open>TermQuery\<close> on the reader\<close>
  fetch_doc :: "'w \<Rightarrow> 'a \<Rightarrow> string + 'd" \<comment> \<open>\<open>searcher.doc\<close>\<close>
  default_doc :: 'd \<comment> \<open>\<open>TantivyDocument::default()\<close>\<close>
  parse_document :: "string \<Rightarrow> string + 'd" \<comment> \<open>\<open>TantivyDocument::parse_json\<close> on the schema\<close>
  doc_to_json :: "'d \<Rightarrow> string"
  doc_str :: "'d \<Rightarrow> field \<Rightarrow> string option" \<comment> \<open>\<open>get_first(field).as_str()\<close>\<close>
  stored_form :: "json \<Rightarrow> json" \<comment> \<open>what the JSON field gives back for a document\<close>
  doc_expires_at :: "'d \<Rightarrow> i64 option" \<comment> \<open>the fast field the range queries read\<close>

definition has_term :: "('w, 'a, 'd) tantivy \<Rightarrow> field \<Rightarrow> string \<Rightarrow> 'd \<Rightarrow> bool" where
  "has_term T f t d = (doc_str T d f = Some t)"

definition expired_by :: "('w, 'a, 'd) tantivy \<Rightarrow> i64 \<Rightarrow> 'd \<Rightarrow> bool" where
  "expired_by T now d = (case doc_expires_at T d of None \<Rightarrow> False | Some x \<Rightarrow> sint x \<le> sint now)"

record ('w, 'd) index_view =
  pending :: "'w \<Rightarrow> 'd list"
  committed :: "'w \<Rightarrow> 'd list"
  visible :: "'w \<Rightarrow> 'd list"

definition writer_laws :: "('w, 'a, 'd) tantivy \<Rightarrow> ('w, 'd) index_view \<Rightarrow> bool" where
  "writer_laws T V =
    ((\<forall>f t w. pending V (delete_term T f t w) = filter (\<lambda>d. \<not> has_term T f t d) (pending V w) \<and>
        committed V (delete_term T f t w) = committed V w \<and>
        visible V (delete_term T f t w) = visible V w) \<and>
     (\<forall>d w w'. add_document T d w = Inr w' \<longrightarrow>
        pending V w' = pending V w @ [d] \<and> committed V w' = committed V w \<and> visible V w' = visible V w) \<and>
     (\<forall>w s w'. commit T w = (Inr s, w') \<longrightarrow>
        pending V w' = pending V w \<and> committed V w' = pending V w \<and> visible V w' = visible V w) \<and>
     (\<forall>now w s w'. delete_until T now w = (Inr s, w') \<longrightarrow>
        pending V w' = filter (\<lambda>d. \<not> expired_by T now d) (pending V w) \<and>
        committed V w' = committed V w \<and> visible V w' = visible V w) \<and>
     (\<forall>w. pending V (reload T w) = pending V w \<and> committed V (reload T w) = committed V w \<and>
        visible V (reload T w) = committed V w))"

text \<open>A term query on the reader finds the visible documents with that term, in some order.\<close>

definition reader_laws :: "('w, 'a, 'd) tantivy \<Rightarrow> ('w, 'd) index_view \<Rightarrow> bool" where
  "reader_laws T V =
    (\<forall>w f t. \<exists>addrs ds. term_search T w f t = Inr addrs \<and> map (fetch_doc T w) addrs = map Inr ds \<and>
        mset ds = mset (filter (has_term T f t) (visible V w)))"

section \<open>What a stored document gives back\<close>

text \<open>The wrapper \<open>process_batch\<close> prints for \<open>parse_json\<close>; \<open>json!\<close> builds the object in key
  order.\<close>

definition full_doc_wrapper :: "string \<Rightarrow> string \<Rightarrow> i64 \<Rightarrow> json \<Rightarrow> u64 \<Rightarrow> json" where
  "full_doc_wrapper i pk expires_at document writetime =
     JObject [(''document'', document),
              (''expires_at'', JNumber (number_of_i64 expires_at)),
              (''id'', JString i),
              (''partition_key'', JString pk),
              (''writetime'', JNumber (PosInt writetime))]"

text \<open>\<open>to_json\<close> wraps every field's values in an array. The JSON field may give a document back in
  another form (Tantivy recognises RFC 3339 dates in strings), so its form is a parameter. \<open>stores\<close> says that document \<open>d\<close> carries
  these values; \<open>storage_laws\<close> that a wrapper the schema accepts is stored with its values (for the
  well-formed values, the only ones the code can build).\<close>

definition stores ::
  "serde \<Rightarrow> ('w, 'a, 'd) tantivy \<Rightarrow> 'd \<Rightarrow> string \<Rightarrow> string \<Rightarrow> i64 \<Rightarrow> json \<Rightarrow> u64 \<Rightarrow> bool" where
  "stores S T d i pk expires_at document writetime =
     (doc_str T d FieldId = Some i \<and> doc_str T d FieldPartitionKey = Some pk \<and>
      doc_expires_at T d = Some expires_at \<and>
      (\<exists>m. from_str S (doc_to_json T d) = Some (JObject m) \<and>
         bt_get m ''writetime'' = Some (JArray [JNumber (PosInt writetime)]) \<and>
         bt_get m ''expires_at'' = Some (JArray [JNumber (number_of_i64 expires_at)]) \<and>
         bt_get m ''partition_key'' = Some (JArray [JString pk]) \<and>
         bt_get m ''document'' = Some (JArray [stored_form T document])))"

definition storage_laws :: "serde \<Rightarrow> ('w, 'a, 'd) tantivy \<Rightarrow> bool" where
  "storage_laws S T =
     (\<forall>i pk expires_at document writetime d. json_wf document \<longrightarrow>
        parse_document T (to_string S (full_doc_wrapper i pk expires_at document writetime)) = Inr d \<longrightarrow>
        stores S T d i pk expires_at document writetime)"

text \<open>The schema declares \<open>writetime\<close> as a signed 64-bit field, so \<open>parse_json\<close> accepts a wrapper
  only up to \<open>i64::MAX\<close>; \<open>accepts\<close> says it accepts all of those whose document is an object.\<close>

definition accepts :: "serde \<Rightarrow> ('w, 'a, 'd) tantivy \<Rightarrow> bool" where
  "accepts S T =
     ((\<forall>i pk ex m wt. uint wt \<le> i64_max_int \<longrightarrow> json_wf (JObject m) \<longrightarrow>
         (\<exists>d. parse_document T (to_string S (full_doc_wrapper i pk ex (JObject m) wt)) = Inr d)) \<and>
      (\<forall>d w. \<exists>w'. add_document T d w = Inr w'))"

lemma writer_delete:
  "writer_laws T V \<Longrightarrow> pending V (delete_term T f t w) = filter (\<lambda>d. \<not> has_term T f t d) (pending V w)"
  "writer_laws T V \<Longrightarrow> committed V (delete_term T f t w) = committed V w"
  "writer_laws T V \<Longrightarrow> visible V (delete_term T f t w) = visible V w"
  by (simp_all add: writer_laws_def)

lemma writer_add:
  assumes "writer_laws T V" "add_document T d w = Inr w'"
  shows "pending V w' = pending V w @ [d]" "committed V w' = committed V w" "visible V w' = visible V w"
  using assms by (simp_all add: writer_laws_def)

lemma writer_commit:
  assumes "writer_laws T V" "commit T w = (Inr s, w')"
  shows "pending V w' = pending V w" "committed V w' = pending V w" "visible V w' = visible V w"
  using assms unfolding writer_laws_def by blast+

lemma writer_delete_until:
  assumes "writer_laws T V" "delete_until T now w = (Inr s, w')"
  shows "pending V w' = filter (\<lambda>d. \<not> expired_by T now d) (pending V w)"
    "committed V w' = committed V w" "visible V w' = visible V w"
  using assms unfolding writer_laws_def by blast+

lemma writer_reload:
  assumes "writer_laws T V"
  shows "pending V (reload T w) = pending V w" "committed V (reload T w) = committed V w"
    "visible V (reload T w) = committed V w"
  using assms unfolding writer_laws_def by blast+

lemmas writer_simps = writer_delete writer_add writer_commit writer_delete_until writer_reload

lemma reader_search:
  assumes "reader_laws T V"
  obtains addrs ds where "term_search T w f t = Inr addrs" "map (fetch_doc T w) addrs = map Inr ds"
    "mset ds = mset (filter (has_term T f t) (visible V w))"
  using assms unfolding reader_laws_def by metis

end
