(* ===== verification/Reference_Index.thy ===== *)
theory Reference_Index
  imports Index
begin

text \<open>
  Concrete instances of the third-party parameters: a compact JSON printer with its parser, and an
  index that keeps the pending, committed and visible documents as lists. They satisfy every law the
  properties assume of \<open>serde_json\<close> and Tantivy, so those hypotheses can hold, and the witnesses
  evaluate the model on them. The printer writes JSON without white space, escapes only the quote
  and the backslash, and writes a float as \<open>#\<close> with its bit pattern.
\<close>

section \<open>A JSON printer and parser\<close>

abbreviation (input) quote :: char where "quote \<equiv> CHR 0x22"
abbreviation (input) backslash :: char where "backslash \<equiv> CHR 0x5C"

definition is_digit :: "char \<Rightarrow> bool" where
  "is_digit c = (digit_val c \<noteq> None)"

fun escape :: "string \<Rightarrow> string" where
  "escape [] = []"
| "escape (c # cs) = (if c = quote \<or> c = backslash then backslash # c # escape cs else c # escape cs)"

definition print_string :: "string \<Rightarrow> string" where
  "print_string s = quote # escape s @ [quote]"

fun print_number :: "number \<Rightarrow> string" where
  "print_number (PosInt n) = show_nat (nat (uint n))"
| "print_number (NegInt n) = CHR ''-'' # show_nat (nat (- sint n))"
| "print_number (Float f) = CHR ''#'' # show_nat (nat (uint f))"

fun print_json :: "json \<Rightarrow> string" where
  "print_json JNull = ''null''"
| "print_json (JBool b) = show_bool b"
| "print_json (JNumber n) = print_number n"
| "print_json (JString s) = print_string s"
| "print_json (JArray xs) = CHR ''['' # str_join '','' (map print_json xs) @ '']''"
| "print_json (JObject m) =
     CHR ''{'' # str_join '','' (map (\<lambda>e. print_string (fst e) @ CHR '':'' # print_json (snd e)) m) @ ''}''"

fun read_string :: "string \<Rightarrow> (string \<times> string) option" where
  "read_string [] = None"
| "read_string [c] = (if c = quote then Some ([], []) else None)"
| "read_string (c # d # cs) =
     (if c = quote then Some ([], d # cs)
      else if c = backslash then map_option (\<lambda>(s, r). (d # s, r)) (read_string cs)
      else map_option (\<lambda>(s, r). (c # s, r)) (read_string (d # cs)))"

definition read_nat :: "string \<Rightarrow> (nat \<times> string) option" where
  "read_nat s = map_option (\<lambda>n. (n, dropWhile is_digit s)) (parse_nat (takeWhile is_digit s))"

definition read_number :: "string \<Rightarrow> (json \<times> string) option" where
  "read_number s =
     (case s of
        [] \<Rightarrow> None
      | c # cs \<Rightarrow>
          if c = CHR ''-'' then
            Option.bind (read_nat cs) (\<lambda>(n, r).
              if 0 < n \<and> n \<le> 2 ^ 63 then Some (JNumber (NegInt (word_of_int (- int n))), r) else None)
          else if c = CHR ''#'' then
            Option.bind (read_nat cs) (\<lambda>(n, r).
              if n < 2 ^ 64 \<and> \<not> f64_is_nan (word_of_nat n) then Some (JNumber (Float (word_of_nat n)), r) else None)
          else
            Option.bind (read_nat s) (\<lambda>(n, r).
              if n < 2 ^ 64 then Some (JNumber (PosInt (word_of_nat n)), r) else None))"

fun read_json :: "nat \<Rightarrow> string \<Rightarrow> (json \<times> string) option"
  and read_elems :: "nat \<Rightarrow> string \<Rightarrow> (json list \<times> string) option"
  and read_members :: "nat \<Rightarrow> string \<Rightarrow> (obj \<times> string) option" where
  "read_json 0 s = None"
| "read_json (Suc n) s =
     (case s of
        [] \<Rightarrow> None
      | c # cs \<Rightarrow>
          if c = CHR ''{'' then
            (if starts_with ''}'' cs then Some (JObject [], tl cs)
             else map_option (\<lambda>(m, r). (JObject (fold (\<lambda>(k, v). bt_put k v) m []), r)) (read_members n cs))
          else if c = CHR ''['' then
            (if starts_with '']'' cs then Some (JArray [], tl cs)
             else map_option (\<lambda>(xs, r). (JArray xs, r)) (read_elems n cs))
          else if c = quote then map_option (\<lambda>(x, r). (JString x, r)) (read_string cs)
          else if c = CHR ''n'' then map_option (\<lambda>r. (JNull, r)) (strip_prefix ''ull'' cs)
          else if c = CHR ''t'' then map_option (\<lambda>r. (JBool True, r)) (strip_prefix ''rue'' cs)
          else if c = CHR ''f'' then map_option (\<lambda>r. (JBool False, r)) (strip_prefix ''alse'' cs)
          else read_number s)"
| "read_elems 0 s = None"
| "read_elems (Suc n) s =
     (case read_json n s of
        Some (v, c # r) \<Rightarrow>
          if c = CHR '','' then map_option (\<lambda>(vs, r). (v # vs, r)) (read_elems n r)
          else if c = CHR '']'' then Some ([v], r)
          else None
      | _ \<Rightarrow> None)"
| "read_members 0 s = None"
| "read_members (Suc n) s =
     (case s of
        [] \<Rightarrow> None
      | q # cs \<Rightarrow>
          if q \<noteq> quote then None
          else (case read_string cs of
              Some (k, c # r) \<Rightarrow>
                if c \<noteq> CHR '':'' then None
                else (case read_json n r of
                    Some (v, c # r) \<Rightarrow>
                      if c = CHR '','' then map_option (\<lambda>(m, r). ((k, v) # m, r)) (read_members n r)
                      else if c = CHR ''}'' then Some ([(k, v)], r)
                      else None
                  | _ \<Rightarrow> None)
            | _ \<Rightarrow> None))"

definition ref_from_str :: "string \<Rightarrow> json option" where
  "ref_from_str s =
     (case read_json (length s) s of Some (v, []) \<Rightarrow> (if json_wf v then Some v else None) | _ \<Rightarrow> None)"

definition ref_serde :: serde where
  "ref_serde = \<lparr>from_str = ref_from_str, to_string = print_json\<rparr>"

subsection \<open>Reading back\<close>

definition no_digit :: "string \<Rightarrow> bool" where
  "no_digit r = (r = [] \<or> \<not> is_digit (hd r))"

lemma no_digit_simps [simp]:
  "no_digit []" "no_digit (CHR '','' # r)" "no_digit (CHR '']'' # r)" "no_digit (CHR ''}'' # r)"
  by (simp_all add: no_digit_def is_digit_def digit_val_def)

lemma read_string_escape: "read_string (escape s @ quote # r) = Some (s, r)"
proof (induction s)
  case Nil
  then show ?case by (cases r) simp_all
next
  case (Cons c cs)
  then show ?case by (cases "escape cs @ quote # r") simp_all
qed

lemma is_digit_show: "c \<in> set (show_nat n) \<Longrightarrow> is_digit c"
  by (auto simp: is_digit_def dest!: show_nat_digits)

lemma read_nat_show: "no_digit r \<Longrightarrow> read_nat (show_nat n @ r) = Some (n, r)"
proof -
  assume "no_digit r"
  then have "takeWhile is_digit r = []" "dropWhile is_digit r = r"
    by (cases r; simp add: no_digit_def)+
  then show ?thesis
    by (simp add: read_nat_def is_digit_show parse_nat_show takeWhile_append2 dropWhile_append2)
qed

lemma nat_uint_bound: "nat (uint (x :: u64)) < 18446744073709551616"
  using unsigned_less [of x, where 'a = nat] by simp

lemma read_number_show:
  assumes "number_wf x" "no_digit r"
  shows "read_number (print_number x @ r) = Some (JNumber x, r)"
proof (cases x)
  case (PosInt n)
  obtain d cs where d: "d < 10" "show_nat (nat (uint n)) = digit_char d # cs"
    using show_nat_hd by blast
  have "digit_char d \<noteq> CHR ''#''"
    using is_digit_show [of "digit_char d" "nat (uint n)"] d by (auto simp: is_digit_def digit_val_def)
  then show ?thesis
    using d read_nat_show [OF assms(2), of "nat (uint n)"] nat_uint_bound [of n]
    by (simp add: PosInt read_number_def digit_not_sign)
next
  case (NegInt n)
  then have "sint n < 0" using assms by simp
  moreover have "- sint n \<le> 9223372036854775808"
    using sint_i64_range(1) [of n] by (simp add: i64_min_int_def)
  ultimately show ?thesis
    using read_nat_show [OF assms(2), of "nat (- sint n)"]
    by (simp add: NegInt read_number_def)
next
  case (Float f)
  then show ?thesis
    using assms read_nat_show [OF assms(2), of "nat (uint f)"] nat_uint_bound [of f]
    by (simp add: read_number_def)
qed

lemma print_json_Cons: "\<exists>c cs. print_json v = c # cs \<and> c \<noteq> CHR '']'' \<and> c \<noteq> CHR ''}''"
proof (cases v)
  case (JNumber n)
  have "\<exists>c cs. show_nat k = c # cs \<and> c \<noteq> CHR '']'' \<and> c \<noteq> CHR ''}''" for k
  proof -
    obtain d cs where d: "d < 10" "show_nat k = digit_char d # cs"
      using show_nat_hd by blast
    moreover have "digit_char d \<noteq> CHR '']''" "digit_char d \<noteq> CHR ''}''"
      using is_digit_show [of "digit_char d" k] d by (auto simp: is_digit_def digit_val_def)
    ultimately show ?thesis by blast
  qed
  then show ?thesis by (cases n) (simp_all add: JNumber)
qed (simp_all add: show_bool_def print_string_def)

definition reads_back :: "json \<Rightarrow> bool" where
  "reads_back v = (\<forall>n r. no_digit r \<longrightarrow> length (print_json v) \<le> n \<longrightarrow>
     read_json n (print_json v @ r) = Some (v, r))"

lemma read_elems_print:
  assumes "xs \<noteq> []" "\<forall>x \<in> set xs. reads_back x" "length (str_join '','' (map print_json xs)) < n"
  shows "read_elems n (str_join '','' (map print_json xs) @ CHR '']'' # r) = Some (xs, r)"
  using assms
proof (induction xs arbitrary: n)
  case (Cons x xs)
  obtain k where n: "n = Suc k" using Cons.prems by (cases n) auto
  show ?case
  proof (cases xs)
    case Nil
    then show ?thesis using Cons.prems by (simp add: n reads_back_def)
  next
    case (Cons y ys)
    have "read_elems k (str_join '','' (map print_json xs) @ CHR '']'' # r) = Some (xs, r)"
      by (rule Cons.IH) (use Cons.prems n Cons in simp_all)
    then show ?thesis using Cons.prems Cons by (simp add: n reads_back_def)
  qed
qed simp

lemma read_members_print:
  assumes "m \<noteq> []" "\<forall>e \<in> set m. reads_back (snd e)"
    and "length (str_join '','' (map (\<lambda>e. print_string (fst e) @ CHR '':'' # print_json (snd e)) m)) < n"
  shows "read_members n (str_join '','' (map (\<lambda>e. print_string (fst e) @ CHR '':'' # print_json (snd e)) m)
    @ CHR ''}'' # r) = Some (m, r)"
  using assms
proof (induction m arbitrary: n)
  case (Cons e m)
  obtain j where n: "n = Suc j" using Cons.prems by (cases n) auto
  obtain k v where e: "e = (k, v)" by (cases e)
  show ?case
  proof (cases m)
    case Nil
    then show ?thesis using Cons.prems by (simp add: n e reads_back_def print_string_def read_string_escape)
  next
    case (Cons f fs)
    have "read_members j (str_join '','' (map (\<lambda>e. print_string (fst e) @ CHR '':'' # print_json (snd e)) m)
        @ CHR ''}'' # r) = Some (m, r)"
      by (rule Cons.IH) (use Cons.prems n Cons in simp_all)
    then show ?thesis
      using Cons.prems Cons by (simp add: n e reads_back_def print_string_def read_string_escape)
  qed
qed simp

lemma fold_bt_put_self: "bt_inv m \<Longrightarrow> fold (\<lambda>(k, v). bt_put k v) m [] = m"
proof (rule bt_ext)
  assume m: "bt_inv m"
  then show "bt_inv (fold (\<lambda>(k, v). bt_put k v) m [])"
    by (intro btree.inv_puts) simp
  have "distinct (map fst m)"
    using m strict_sorted_iff by (auto simp: bt_inv_def)
  then have "map_of (rev m) k = map_of m k" for k
    using map_of_inject_set [of "rev m" m] by (simp add: rev_map [symmetric])
  then show "bt_get (fold (\<lambda>(k, v). bt_put k v) m []) k = bt_get m k" for k
    using btree.get_puts [OF bt_inv_Nil, of m k] by (simp add: bt_get_def split: option.splits)
qed

lemma print_number_head:
  "\<exists>c cs. print_number n = c # cs \<and> c \<notin> {CHR ''{'', CHR ''['', quote, CHR ''n'', CHR ''t'', CHR ''f''}"
proof (cases n)
  case (PosInt x)
  obtain d cs where d: "d < 10" "show_nat (nat (uint x)) = digit_char d # cs"
    using show_nat_hd by blast
  have "c \<noteq> digit_char d" if "\<not> is_digit c" for c
    using is_digit_show [of "digit_char d" "nat (uint x)"] d that by auto
  from this [of "CHR ''{''"] this [of "CHR ''[''"] this [of quote] this [of "CHR ''n''"] this [of "CHR ''t''"]
    this [of "CHR ''f''"] d
  show ?thesis by (auto simp: PosInt is_digit_def digit_val_def)
qed simp_all

lemma reads_backI:
  assumes "\<And>k r. no_digit r \<Longrightarrow> length (print_json v) \<le> Suc k \<Longrightarrow> read_json (Suc k) (print_json v @ r) = Some (v, r)"
  shows "reads_back v"
  unfolding reads_back_def
proof (intro allI impI)
  fix n r
  assume r: "no_digit r" and n: "length (print_json v) \<le> n"
  obtain k where "n = Suc k" using n print_json_Cons [of v] by (cases n) auto
  then show "read_json n (print_json v @ r) = Some (v, r)" using assms r n by simp
qed

lemma reads_back_atom:
  "reads_back JNull" "reads_back (JBool True)" "reads_back (JBool False)" "reads_back (JString s)"
     apply (rule reads_backI, simp)
    apply (rule reads_backI, simp add: show_bool_def)
   apply (rule reads_backI, simp add: show_bool_def)
  apply (rule reads_backI, simp add: print_string_def read_string_escape)
  done

lemma read_json_other:
  "c \<notin> {CHR ''{'', CHR ''['', quote, CHR ''n'', CHR ''t'', CHR ''f''} \<Longrightarrow>
   read_json (Suc k) (c # s) = read_number (c # s)"
  by (simp only: read_json.simps list.case insert_iff empty_iff de_Morgan_disj if_False simp_thms)

lemma reads_back_number: "number_wf n \<Longrightarrow> reads_back (JNumber n)"
proof (rule reads_backI)
  fix k r
  assume n: "number_wf n" and r: "no_digit r"
  from print_number_head [of n] show "read_json (Suc k) (print_json (JNumber n) @ r) = Some (JNumber n, r)"
  proof (elim exE conjE)
    fix c cs
    assume c: "print_number n = c # cs" "c \<notin> {CHR ''{'', CHR ''['', quote, CHR ''n'', CHR ''t'', CHR ''f''}"
    have "read_number (c # cs @ r) = Some (JNumber n, r)"
      using read_number_show [OF n r] by (simp only: c append_Cons)
    then show ?thesis by (simp only: print_json.simps c(1) append_Cons read_json_other [OF c(2)])
  qed
qed

lemma reads_back_array:
  assumes all: "\<forall>x \<in> set xs. reads_back x"
  shows "reads_back (JArray xs)"
proof (rule reads_backI)
  fix k r
  assume n: "length (print_json (JArray xs)) \<le> Suc k"
  show "read_json (Suc k) (print_json (JArray xs) @ r) = Some (JArray xs, r)"
  proof (cases xs)
    case (Cons y ys)
    obtain c cs where c: "print_json y = c # cs" "c \<noteq> CHR '']''" using print_json_Cons by blast
    obtain t where t: "str_join '','' (map print_json xs) = c # t"
      using c Cons by (cases ys) auto
    have "read_elems k (str_join '','' (map print_json xs) @ CHR '']'' # r) = Some (xs, r)"
      by (rule read_elems_print) (use Cons all n in simp_all)
    then show ?thesis
      using c(2) by (simp add: t starts_with_def)
  qed (simp add: starts_with_def)
qed

lemma reads_back_object:
  assumes all: "\<forall>e \<in> set m. reads_back (snd e)" and m: "bt_inv m"
  shows "reads_back (JObject m)"
proof (rule reads_backI)
  fix k r
  assume n: "length (print_json (JObject m)) \<le> Suc k"
  let ?p = "\<lambda>e. print_string (fst e) @ CHR '':'' # print_json (snd e)"
  show "read_json (Suc k) (print_json (JObject m) @ r) = Some (JObject m, r)"
  proof (cases m)
    case (Cons e es)
    obtain t where t: "str_join '','' (map ?p m) = quote # t"
      using Cons by (cases es) (auto simp: print_string_def)
    have "read_members k (str_join '','' (map ?p m) @ CHR ''}'' # r) = Some (m, r)"
      by (rule read_members_print) (use Cons all n in simp_all)
    then show ?thesis
      using fold_bt_put_self [OF m] by (simp add: t starts_with_def)
  qed (simp add: starts_with_def)
qed

lemma print_json_reads_back: "json_wf v \<Longrightarrow> reads_back v"
proof (induction v)
  case (JBool b)
  show ?case by (cases b) (simp_all add: reads_back_atom)
next
  case (JArray xs)
  then show ?case by (intro reads_back_array) (auto simp: list_all_iff)
next
  case (JObject m)
  then show ?case by (intro reads_back_object) (fastforce simp: list_all_iff snds.simps)+
qed (simp_all add: reads_back_atom reads_back_number)

lemma ref_roundtrip: "json_wf v \<Longrightarrow> from_str ref_serde (to_string ref_serde v) = Some v"
proof -
  assume "json_wf v"
  then have "read_json (length (print_json v)) (print_json v @ []) = Some (v, [])"
    using print_json_reads_back [of v] unfolding reads_back_def by (metis no_digit_simps(1) order_refl)
  with \<open>json_wf v\<close> show ?thesis by (simp add: ref_serde_def ref_from_str_def)
qed

lemma ref_serde_wf: "serde_wf ref_serde"
  by (auto simp: serde_wf_def ref_serde_def ref_from_str_def split: option.splits list.splits if_splits)


section \<open>An index on lists\<close>

record ref_index =
  r_pending :: "json list"
  r_committed :: "json list"
  r_visible :: "json list"
  r_opstamp :: u64

text \<open>A document is the wrapper as parsed; \<open>to_json\<close> puts every field's value in an array.\<close>

fun field_name :: "field \<Rightarrow> string" where
  "field_name FieldId = ''id''"
| "field_name FieldPartitionKey = ''partition_key''"

definition ref_doc_str :: "json \<Rightarrow> field \<Rightarrow> string option" where
  "ref_doc_str d f = Option.bind (json_get (field_name f) d) as_str"

definition ref_expires :: "json \<Rightarrow> i64 option" where
  "ref_expires d = Option.bind (json_get ''expires_at'' d) as_i64"

definition ref_to_json :: "json \<Rightarrow> string" where
  "ref_to_json d = print_json (case d of JObject m \<Rightarrow> JObject (map (\<lambda>(k, v). (k, JArray [v])) m) | _ \<Rightarrow> d)"

definition ref_parse :: "string \<Rightarrow> string + json" where
  "ref_parse s =
     (case ref_from_str s of
        None \<Rightarrow> Inl ''The provided string is not valid JSON''
      | Some d \<Rightarrow>
          (case (json_get ''document'' d, Option.bind (json_get ''writetime'' d) as_i64) of
             (Some (JObject m), Some wt) \<Rightarrow> Inr d
           | _ \<Rightarrow> Inl ''The document does not match the schema''))"

definition ref_tantivy :: "(ref_index, json, json) tantivy" where
  "ref_tantivy =
     \<lparr>delete_term = (\<lambda>f t w. w\<lparr>r_pending := filter (\<lambda>d. ref_doc_str d f \<noteq> Some t) (r_pending w)\<rparr>),
      add_document = (\<lambda>d w. Inr (w\<lparr>r_pending := r_pending w @ [d]\<rparr>)),
      commit = (\<lambda>w. (Inr (r_opstamp w),
        w\<lparr>r_committed := r_pending w, r_opstamp := r_opstamp w + 1\<rparr>)),
      delete_until = (\<lambda>now w. (Inr (r_opstamp w),
        w\<lparr>r_pending := filter (\<lambda>d. \<not> (case ref_expires d of None \<Rightarrow> False | Some x \<Rightarrow> sint x \<le> sint now))
            (r_pending w)\<rparr>)),
      reload = (\<lambda>w. w\<lparr>r_visible := r_committed w\<rparr>),
      term_search = (\<lambda>w f t. Inr (filter (\<lambda>d. ref_doc_str d f = Some t) (r_visible w))),
      fetch_doc = (\<lambda>w d. Inr d),
      default_doc = JNull,
      parse_document = ref_parse,
      doc_to_json = ref_to_json,
      doc_str = ref_doc_str,
      stored_form = id,
      doc_expires_at = ref_expires\<rparr>"

definition ref_view :: "(ref_index, json) index_view" where
  "ref_view = \<lparr>pending = r_pending, committed = r_committed, visible = r_visible\<rparr>"

definition ref_empty :: ref_index where
  "ref_empty = \<lparr>r_pending = [], r_committed = [], r_visible = [], r_opstamp = 0\<rparr>"

lemma ref_writer_laws: "writer_laws ref_tantivy ref_view"
  by (simp add: writer_laws_def ref_tantivy_def ref_view_def has_term_def expired_by_def split: option.splits)

lemma ref_reader_laws: "reader_laws ref_tantivy ref_view"
  by (auto simp: reader_laws_def ref_tantivy_def ref_view_def has_term_def)

lemma wrapper_wf: "json_wf (full_doc_wrapper i pk ex document wt) \<longleftrightarrow> json_wf document"
  by (simp add: full_doc_wrapper_def bt_inv_Cons number_of_i64_def)

lemma wrapper_get:
  "bt_get [(''document'', document), (''expires_at'', e), (''id'', i), (''partition_key'', p), (''writetime'', w)] k =
     (if k = ''document'' then Some document else if k = ''expires_at'' then Some e
      else if k = ''id'' then Some i else if k = ''partition_key'' then Some p
      else if k = ''writetime'' then Some w else None)"
  by (simp add: bt_get_Cons)

lemma json_wf_wrap_members:
  "json_wf (JObject m) \<Longrightarrow> json_wf (JObject (map (\<lambda>(k, v). (k, JArray [v])) m))"
  by (auto simp: list_all_iff bt_inv_def case_prod_unfold comp_def)

lemma bt_get_wrap_members:
  "bt_get (map (\<lambda>(k, v). (k, JArray [v])) m) k = map_option (\<lambda>v. JArray [v]) (bt_get m k)"
  by (induction m) (auto simp: bt_get_Cons)

lemma ref_parse_wrapper:
  assumes "json_wf document" "ref_parse (print_json (full_doc_wrapper i pk ex document wt)) = Inr d"
  shows "d = full_doc_wrapper i pk ex document wt"
proof -
  have "ref_from_str (print_json (full_doc_wrapper i pk ex document wt)) = Some (full_doc_wrapper i pk ex document wt)"
    using ref_roundtrip [of "full_doc_wrapper i pk ex document wt"] assms(1)
    by (simp add: wrapper_wf ref_serde_def)
  then show ?thesis
    using assms(2) by (auto simp: ref_parse_def split: option.splits json.splits)
qed

lemma ref_storage_laws: "storage_laws ref_serde ref_tantivy"
  unfolding storage_laws_def
proof (intro allI impI)
  fix i pk ex document wt d
  assume wf: "json_wf document"
    and "parse_document ref_tantivy (to_string ref_serde (full_doc_wrapper i pk ex document wt)) = Inr d"
  then have d: "d = full_doc_wrapper i pk ex document wt"
    by (intro ref_parse_wrapper) (simp_all add: ref_tantivy_def ref_serde_def)
  obtain m where m: "full_doc_wrapper i pk ex document wt = JObject m"
    by (simp add: full_doc_wrapper_def)
  have "json_wf (JObject m)"
    using wf m wrapper_wf by metis
  then have "from_str ref_serde (doc_to_json ref_tantivy d) = Some (JObject (map (\<lambda>(k, v). (k, JArray [v])) m))"
    using ref_roundtrip [OF json_wf_wrap_members]
    by (simp add: ref_tantivy_def ref_to_json_def d m ref_serde_def)
  moreover have "bt_get m = bt_get [(''document'', document), (''expires_at'', JNumber (number_of_i64 ex)),
      (''id'', JString i), (''partition_key'', JString pk), (''writetime'', JNumber (PosInt wt))]"
    using m by (simp add: full_doc_wrapper_def)
  ultimately show "stores ref_serde ref_tantivy d i pk ex document wt"
    by (simp add: stores_def bt_get_wrap_members wrapper_get ref_tantivy_def ref_doc_str_def ref_expires_def
        d m)
qed

lemma ref_parse_ok:
  assumes "uint wt \<le> i64_max_int" "json_wf (JObject m)"
  shows "ref_parse (print_json (full_doc_wrapper i pk ex (JObject m) wt)) =
    Inr (full_doc_wrapper i pk ex (JObject m) wt)"
proof -
  have "ref_from_str (print_json (full_doc_wrapper i pk ex (JObject m) wt)) =
      Some (full_doc_wrapper i pk ex (JObject m) wt)"
    using ref_roundtrip [of "full_doc_wrapper i pk ex (JObject m) wt"] assms(2)
    by (simp only: wrapper_wf ref_serde_def serde.simps)
  then show ?thesis
    using assms(1) by (simp add: ref_parse_def full_doc_wrapper_def wrapper_get i64_try_from_def)
qed

lemma ref_accepts: "accepts ref_serde ref_tantivy"
  using ref_parse_ok by (simp add: accepts_def ref_tantivy_def ref_serde_def)

lemmas ref_laws = ref_serde_wf ref_writer_laws ref_reader_laws ref_storage_laws ref_accepts

section \<open>Evaluating the model on the reference instances\<close>

declare print_json.simps [simp del]

named_theorems ref_eval \<open>rules that evaluate the reference instances\<close>

lemma ref_from_print [ref_eval]: "json_wf v \<Longrightarrow> from_str ref_serde (print_json v) = Some v"
  using ref_roundtrip [of v] by (simp add: ref_serde_def)

lemma ref_parse_print [ref_eval]:
  "uint wt \<le> i64_max_int \<Longrightarrow> json_wf (JObject m) \<Longrightarrow>
   parse_document ref_tantivy (to_string ref_serde (full_doc_wrapper i pk ex (JObject m) wt)) =
     Inr (full_doc_wrapper i pk ex (JObject m) wt)"
  using ref_parse_ok by (simp add: ref_tantivy_def ref_serde_def)

lemma ref_tantivy_ops [ref_eval]:
  "delete_term ref_tantivy f t w = w\<lparr>r_pending := filter (\<lambda>d. ref_doc_str d f \<noteq> Some t) (r_pending w)\<rparr>"
  "add_document ref_tantivy d w = Inr (w\<lparr>r_pending := r_pending w @ [d]\<rparr>)"
  "commit ref_tantivy w = (Inr (r_opstamp w), w\<lparr>r_committed := r_pending w, r_opstamp := r_opstamp w + 1\<rparr>)"
  "reload ref_tantivy w = w\<lparr>r_visible := r_committed w\<rparr>"
  "delete_until ref_tantivy now w = (Inr (r_opstamp w),
     w\<lparr>r_pending := filter (\<lambda>d. \<not> (case ref_expires d of None \<Rightarrow> False | Some x \<Rightarrow> sint x \<le> sint now)) (r_pending w)\<rparr>)"
  "term_search ref_tantivy w f t = Inr (filter (\<lambda>d. ref_doc_str d f = Some t) (r_visible w))"
  "fetch_doc ref_tantivy w d = Inr d"
  "doc_to_json ref_tantivy d = ref_to_json d"
  "doc_str ref_tantivy d f = ref_doc_str d f"
  by (simp_all add: ref_tantivy_def)

lemma ref_wrapper_fields [ref_eval]:
  "ref_doc_str (full_doc_wrapper i pk ex document wt) FieldId = Some i"
  "ref_doc_str (full_doc_wrapper i pk ex document wt) FieldPartitionKey = Some pk"
  "ref_expires (full_doc_wrapper i pk ex document wt) = Some ex"
  by (simp_all add: ref_doc_str_def ref_expires_def full_doc_wrapper_def wrapper_get)

lemma ref_to_json_back [ref_eval]:
  assumes "json_wf document"
  shows "from_str ref_serde (ref_to_json (full_doc_wrapper i pk ex document wt)) =
    Some (JObject
      [(''document'', JArray [document]),
       (''expires_at'', JArray [JNumber (number_of_i64 ex)]),
       (''id'', JArray [JString i]),
       (''partition_key'', JArray [JString pk]),
       (''writetime'', JArray [JNumber (PosInt wt)])])"
proof -
  let ?m = "[(''document'', document), (''expires_at'', JNumber (number_of_i64 ex)), (''id'', JString i),
    (''partition_key'', JString pk), (''writetime'', JNumber (PosInt wt))]"
  have "json_wf (JObject ?m)"
    using assms wrapper_wf [of i pk ex document wt] by (simp only: full_doc_wrapper_def)
  from ref_from_print [OF json_wf_wrap_members [OF this]] show ?thesis
    by (simp add: ref_to_json_def full_doc_wrapper_def del: json_wf.simps)
qed

lemmas ref_state [ref_eval] = ref_empty_def ref_view_def ref_index.simps

lemmas text_eval [ref_eval] = cmp_of_def less_char_def

end
