(* ===== verification/Document_Props.thy ===== *)
theory Document_Props
  imports Reference_Index
begin

text \<open>
  The properties of the document algebra (\<open>Document\<close>): what merging a payload and applying
  collection deltas do to a stored document.
\<close>

section \<open>Properties\<close>

text \<open>C24: Merging a payload into a document acts member by member, at every depth: a member of the
  payload is merged into the document's member of that name (or stands alone where there is none),
  every other member stays, and anything that is not a pair of objects is replaced by the payload.\<close>

theorem merge_is_memberwise:
  assumes "json_wf a" "json_wf b"
  shows "json_wf (merge_json a b) \<and>
    (case (a, b) of
       (JObject m, JObject n) \<Rightarrow>
         \<exists>k. merge_json a b = JObject k \<and>
           (\<forall>j. bt_get k j =
              (case (bt_get m j, bt_get n j) of
                 (x, None) \<Rightarrow> x
               | (None, Some v) \<Rightarrow> Some v
               | (Some u, Some v) \<Rightarrow> Some (merge_json u v)))
     | _ \<Rightarrow> merge_json a b = b)"
proof (cases "\<exists>m n. a = JObject m \<and> b = JObject n")
  case True
  then obtain m n where mn: "a = JObject m" "b = JObject n" by blast
  have "bt_inv n" using assms(2) mn by simp
  then have "bt_get (merge_members m n) j =
      (case (bt_get m j, bt_get n j) of
         (x, None) \<Rightarrow> x | (None, Some v) \<Rightarrow> Some v | (Some u, Some v) \<Rightarrow> Some (merge_json u v))" for j
    by (auto simp: merge_members_get bt_entry_or_def merge_json_Null split: option.split)
  then show ?thesis using merge_json_wf(1) [OF assms] by (simp add: mn)
next
  case False
  then have "merge_json a b = b" by (intro merge_json_scalar) blast
  then show ?thesis using False assms by (cases a; cases b) simp_all
qed

theorem merge_is_memberwise_witness:
  "bt_get (case merge_json (JObject [(''a'', JObject [(''x'', JNull)]), (''b'', JBool True)])
                           (JObject [(''a'', JObject [(''y'', JNull)])]) of JObject k \<Rightarrow> k | _ \<Rightarrow> []) ''b''
     = Some (JBool True)"
proof -
  have "json_wf (JObject [(''a'', JObject [(''x'', JNull)]), (''b'', JBool True)])"
    "json_wf (JObject [(''a'', JObject [(''y'', JNull)])])"
    by (simp_all add: bt_inv_Cons less_char_def)
  from merge_is_memberwise [OF this]
  obtain k where "merge_json (JObject [(''a'', JObject [(''x'', JNull)]), (''b'', JBool True)])
      (JObject [(''a'', JObject [(''y'', JNull)])]) = JObject k"
    "bt_get k ''b'' = Some (JBool True)"
    by (auto simp: bt_get_Cons)
  then show ?thesis by simp
qed

text \<open>A payload applied twice is applied once: merging is idempotent in the payload, so a change
  delivered again by CDC leaves the document as it was.\<close>

theorem merge_is_idempotent:
  assumes "json_wf doc" "json_wf payload"
  shows "merge_json (merge_json doc payload) payload = merge_json doc payload"
  using assms by (rule merge_json_twice)

theorem merge_is_idempotent_witness:
  "let p = JObject [(''a'', JArray [JNull])]
   in merge_json (merge_json (JObject [(''a'', JBool True)]) p) p = merge_json (JObject [(''a'', JBool True)]) p"
proof -
  have "json_wf (JObject [(''a'', JBool True)])" "json_wf (JObject [(''a'', JArray [JNull])])"
    by (simp_all add: bt_inv_Cons)
  from merge_is_idempotent [OF this] show ?thesis by (simp add: Let_def)
qed

text \<open>C16: A collection delta means the set operations in order, tombstone then remove then add: an
  element is in the column afterwards exactly when it was added, or was there, was not tombstoned and
  was not deleted; and an array without repeated elements stays without.\<close>

theorem delta_is_set_algebra:
  assumes "serde_wf S" "no_dups xs"
  shows "(contains (delta_elements S d xs) x \<longleftrightarrow>
       contains (parsed_elements S (added_elements_json d)) x \<or>
       (\<not> tombstoned d \<and> contains xs x \<and> \<not> contains (parsed_elements S (deleted_elements_json d)) x)) \<and>
    no_dups (delta_elements S d xs)"
  using contains_delta_elements [OF parsed_elements_wf [OF assms(1)]] delta_elements_no_dups [OF assms(2)]
  by blast

definition sample_delta :: collection_delta where
  "sample_delta = \<lparr>column = ''tags'', tombstoned = False,
     added_elements_json = print_json (JArray [JString ''b'']),
     deleted_elements_json = print_json (JArray [JString ''a''])\<rparr>"

theorem delta_is_set_algebra_witness:
  "let xs = delta_elements ref_serde sample_delta [JString ''a'', JString ''c'']
   in contains xs (JString ''b'') \<and> contains xs (JString ''c'') \<and> \<not> contains xs (JString ''a'') \<and> no_dups xs"
proof -
  have parsed: "parsed_elements ref_serde (print_json (JArray [JString s])) = [JString s]" for s
    using print_json_Cons [of "JArray [JString s]"]
    by (auto simp: parsed_elements_def from_str_vec_def ref_from_print)
  have dups: "no_dups [JString ''a'', JString ''c'']"
    by (simp add: no_dups_def)
  note rule = delta_is_set_algebra [OF ref_serde_wf dups, of sample_delta]
  show ?thesis
    using rule [of "JString ''a''"] rule [of "JString ''b''"] rule [of "JString ''c''"]
    by (simp add: Let_def sample_delta_def parsed contains_def)
qed

text \<open>A list of deltas changes the document column by column: a column named by some delta becomes
  an array, the result of its deltas in order on the array that was there (or on an empty one where
  the column was absent or no array); every other member stays, and a document that is not an object
  is left alone.\<close>

theorem deltas_act_per_column:
  "(case doc of
      JObject m \<Rightarrow>
        \<exists>k. apply_collection_deltas S ds doc = JObject k \<and>
          (\<forall>col. bt_get k col =
             (if col \<in> column ` set ds
              then Some (JArray (fold (delta_elements S) (filter (\<lambda>d. column d = col) ds) (existing_elements col m)))
              else bt_get m col))
    | _ \<Rightarrow> apply_collection_deltas S ds doc = doc)"
  by (cases doc) (simp_all add: apply_collection_deltas_def fold_delta_get)

text \<open>The added elements of a map column, which the protocol sends as a JSON object, are dropped:
  only a JSON array is read, so the delta leaves the column's elements as if nothing was added.\<close>

theorem map_delta_is_dropped:
  assumes "from_str S (added_elements_json d) = Some (JObject m)" "\<not> tombstoned d"
    and "deleted_elements_json d = []"
  shows "delta_elements S d xs = xs"
  using assms by (simp add: delta_elements_def add_elements_def remove_deleted_def from_str_vec_def)

theorem map_delta_is_dropped_witness:
  "delta_elements ref_serde
     \<lparr>column = ''attrs'', tombstoned = False,
      added_elements_json = print_json (JObject [(''k'', JString ''v'')]), deleted_elements_json = []\<rparr> [] = []"
  by (rule map_delta_is_dropped [of _ _ "[(''k'', JString ''v'')]"]) (simp_all add: ref_from_print bt_inv_Cons)

end
