(* ===== verification/Engine.thy ===== *)
theory Engine
  imports Index
begin

text \<open>
  The engine of a search node (\<open>node/src/engine/core.rs\<close>): its state is the Tantivy index behind
  the writer lock, the cache \<open>uncommitted_docs\<close> of documents written since the last commit, and
  the commit generation. \<open>process_batch\<close> applies a batch of operations in order;
  \<open>commit_tick\<close> and \<open>prune_tick\<close> are one round of the two background tasks;
  \<open>find_cached_or_indexed\<close> and \<open>list_document_ids_by_partition_key\<close> are the lookups.
\<close>

named_theorems engine_simps \<open>how the engine's operations act on its state\<close>

section \<open>State\<close>

record doc =
  doc_id :: string
  doc_partition_key :: string
  doc_doc :: json
  doc_expires :: i64
  doc_writetime :: u64
  doc_generation :: u64

record 'w engine =
  writer :: 'w
  poisoned :: bool \<comment> \<open>the writer lock, poisoned by a panic of an earlier holder\<close>
  uncommitted_docs :: "(string \<times> doc) list"
  current_generation :: u64

definition new_engine :: "'w \<Rightarrow> 'w engine" where
  "new_engine w = \<lparr>writer = w, poisoned = False, uncommitted_docs = [], current_generation = 0\<rparr>"

section \<open>Lookup\<close>

text \<open>The fields of a stored document, each read with its own fallback.\<close>

definition first_of :: "string \<Rightarrow> json \<Rightarrow> json option" where
  "first_of k full = Option.bind (Option.bind (json_get k full) as_array) first_elem"

definition doc_of_stored :: "string \<Rightarrow> json \<Rightarrow> doc" where
  "doc_of_stored i full =
     \<lparr>doc_id = i,
      doc_partition_key =
        (case Option.bind (first_of ''partition_key'' full) as_str of Some s \<Rightarrow> s | None \<Rightarrow> []),
      doc_doc =
        (case json_get ''document'' full of
           Some (JArray (x # xs)) \<Rightarrow> x
         | Some other \<Rightarrow> other
         | None \<Rightarrow> JObject []),
      doc_expires =
        (case Option.bind (first_of ''expires_at'' full) as_i64 of Some x \<Rightarrow> x | None \<Rightarrow> i64_max),
      doc_writetime =
        (case Option.bind (first_of ''writetime'' full) as_u64 of Some x \<Rightarrow> x | None \<Rightarrow> 0),
      doc_generation = 0\<rparr>"

definition find_indexed :: "serde \<Rightarrow> ('w, 'a, 'd) tantivy \<Rightarrow> 'w \<Rightarrow> string \<Rightarrow> doc option" where
  "find_indexed S T w i =
     (case (case term_search T w FieldId i of Inl _ \<Rightarrow> [] | Inr addrs \<Rightarrow> take 1 addrs) of
        [] \<Rightarrow> None
      | addr # _ \<Rightarrow>
          let retrieved = (case fetch_doc T w addr of Inl _ \<Rightarrow> default_doc T | Inr d \<Rightarrow> d)
          in map_option (doc_of_stored i) (from_str S (doc_to_json T retrieved)))"

definition find_cached_or_indexed ::
  "serde \<Rightarrow> ('w, 'a, 'd) tantivy \<Rightarrow> 'w engine \<Rightarrow> string \<Rightarrow> doc option" where
  "find_cached_or_indexed S T e i =
     (case hm_get (uncommitted_docs e) i of
        Some cached_doc \<Rightarrow> Some cached_doc
      | None \<Rightarrow> find_indexed S T (writer e) i)"

section \<open>\<open>process_batch\<close>\<close>

definition expires_at_of :: "u64 \<Rightarrow> i64 option \<Rightarrow> i64" where
  "expires_at_of writetime cdc_ttl =
     (case cdc_ttl of
        None \<Rightarrow> i64_max
      | Some ttl \<Rightarrow>
          let ttl_micros = max_i64 (saturating_mul_i64 ttl 1000000) 0;
              expires_at = saturating_add_u64 writetime ttl_micros
          in case i64_try_from expires_at of Some x \<Rightarrow> x | None \<Rightarrow> i64_max)"

datatype op_outcome = Processed | Skipped | Failed string

text \<open>\<open>existing.writetime >= op.writetime\<close>.\<close>

definition is_stale :: "doc option \<Rightarrow> index_operation \<Rightarrow> bool" where
  "is_stale existing op =
     (case existing of None \<Rightarrow> False | Some d \<Rightarrow> op_writetime op \<le> doc_writetime d)"

definition upserted_json :: "serde \<Rightarrow> doc option \<Rightarrow> index_operation \<Rightarrow> json" where
  "upserted_json S existing op =
     (let current = (case existing of Some d \<Rightarrow> doc_doc d | None \<Rightarrow> JObject []);
          patch = (case from_str S (op_payload_json op) of Some v \<Rightarrow> v | None \<Rightarrow> JNull);
          merged = merge_json current patch
      in if op_collection_deltas op \<noteq> []
         then apply_collection_deltas S (op_collection_deltas op) merged else merged)"

definition op_key :: "index_operation \<Rightarrow> string" where
  "op_key op = (case op_partition_key op of Some pk \<Rightarrow> pk | None \<Rightarrow> op_id op)"

definition upserted_doc :: "serde \<Rightarrow> doc option \<Rightarrow> u64 \<Rightarrow> index_operation \<Rightarrow> doc" where
  "upserted_doc S existing generation op =
     \<lparr>doc_id = op_id op,
      doc_partition_key = op_key op,
      doc_doc = upserted_json S existing op,
      doc_expires = expires_at_of (op_writetime op) (op_cdc_ttl op),
      doc_writetime = op_writetime op,
      doc_generation = generation\<rparr>"

definition wrapper_of :: "doc \<Rightarrow> json" where
  "wrapper_of d =
     full_doc_wrapper (doc_id d) (doc_partition_key d) (doc_expires d) (doc_doc d) (doc_writetime d)"

definition do_upsert ::
  "serde \<Rightarrow> ('w, 'a, 'd) tantivy \<Rightarrow> index_operation \<Rightarrow> 'w engine \<Rightarrow> 'w engine \<times> op_outcome" where
  "do_upsert S T op e =
     (let existing = find_cached_or_indexed S T e (op_id op) in
      if is_stale existing op then (e, Skipped)
      else
        let uncommitted_doc = upserted_doc S existing (current_generation e) op;
            w = delete_term T FieldId (op_id op) (writer e);
            e1 = e\<lparr>uncommitted_docs := hm_put (op_id op) uncommitted_doc (uncommitted_docs e), writer := w\<rparr>
        in case parse_document T (to_string S (wrapper_of uncommitted_doc)) of
             Inl _ \<Rightarrow> (e1, Skipped)
           | Inr d \<Rightarrow>
               (case add_document T d w of
                  Inl err \<Rightarrow> (e1, Failed err)
                | Inr w' \<Rightarrow> (e1\<lparr>writer := w'\<rparr>, Processed)))"

definition do_delete ::
  "serde \<Rightarrow> ('w, 'a, 'd) tantivy \<Rightarrow> index_operation \<Rightarrow> 'w engine \<Rightarrow> 'w engine \<times> op_outcome" where
  "do_delete S T op e =
     (if is_stale (find_cached_or_indexed S T e (op_id op)) op then (e, Skipped)
      else (e\<lparr>writer := delete_term T FieldId (op_id op) (writer e),
              uncommitted_docs := hm_remove (op_id op) (uncommitted_docs e)\<rparr>, Processed))"

definition do_partition_delete ::
  "('w, 'a, 'd) tantivy \<Rightarrow> index_operation \<Rightarrow> 'w engine \<Rightarrow> 'w engine \<times> op_outcome" where
  "do_partition_delete T op e =
     (let pk = op_key op in
      (e\<lparr>writer := delete_term T FieldPartitionKey pk (writer e),
         uncommitted_docs := hm_retain (\<lambda>_ d. doc_partition_key d \<noteq> pk) (uncommitted_docs e)\<rparr>, Processed))"

definition process_op ::
  "serde \<Rightarrow> ('w, 'a, 'd) tantivy \<Rightarrow> index_operation \<Rightarrow> 'w engine \<Rightarrow> 'w engine \<times> op_outcome" where
  "process_op S T op e =
     (case op_type_of op of
        OpUpsert \<Rightarrow> do_upsert S T op e
      | OpDelete \<Rightarrow> do_delete S T op e
      | OpPartitionDelete \<Rightarrow> do_partition_delete T op e
      | OpUnspecified \<Rightarrow> (e, Skipped))"

text \<open>The loop over the operations; an error of \<open>add_document\<close> leaves it with the operations before
  it applied.\<close>

fun process_ops ::
  "serde \<Rightarrow> ('w, 'a, 'd) tantivy \<Rightarrow> index_operation list \<Rightarrow> u32 \<Rightarrow> u32 \<Rightarrow> 'w engine \<Rightarrow>
   'w engine \<times> (string + index_batch_response)" where
  "process_ops S T [] processed skipped e =
     (e, Inr \<lparr>processed_count = processed, skipped_count = skipped, success = True\<rparr>)"
| "process_ops S T (op # ops) processed skipped e =
     (case process_op S T op e of
        (e', Processed) \<Rightarrow> process_ops S T ops (processed + 1) skipped e'
      | (e', Skipped) \<Rightarrow> process_ops S T ops processed (skipped + 1) e'
      | (e', Failed err) \<Rightarrow> (e', Inl err))"

definition process_batch ::
  "serde \<Rightarrow> ('w, 'a, 'd) tantivy \<Rightarrow> index_operation list \<Rightarrow> 'w engine \<Rightarrow>
   'w engine \<times> (string + index_batch_response)" where
  "process_batch S T ops e =
     (if poisoned e then (e, Inl ''Lock poisoned'') else process_ops S T ops 0 0 e)"

section \<open>Background tasks\<close>

text \<open>One tick of \<open>spawn_committer\<close>; \<open>contended\<close> says whether \<open>try_write\<close> found the lock held.\<close>

definition commit_tick :: "('w, 'a, 'd) tantivy \<Rightarrow> bool \<Rightarrow> 'w engine \<Rightarrow> 'w engine" where
  "commit_tick T contended e =
     (if contended \<or> poisoned e then e
      else case commit T (writer e) of
        (Inr opstamp, w) \<Rightarrow>
          let committed_gen = current_generation e
          in e\<lparr>writer := w,
               current_generation := committed_gen + 1,
               uncommitted_docs := hm_retain (\<lambda>_ d. committed_gen < doc_generation d) (uncommitted_docs e)\<rparr>
      | (Inl err, w) \<Rightarrow> e\<lparr>writer := w, current_generation := current_generation e - 1\<rparr>)"

text \<open>One tick of \<open>spawn_pruner\<close> at time \<open>now\<close>.\<close>

definition prune_tick :: "('w, 'a, 'd) tantivy \<Rightarrow> bool \<Rightarrow> i64 \<Rightarrow> 'w engine \<Rightarrow> 'w engine" where
  "prune_tick T contended now e =
     (if contended \<or> poisoned e then e
      else case delete_until T now (writer e) of
        (Inr opstamp, w) \<Rightarrow> e\<lparr>writer := snd (commit T w)\<rparr>
      | (Inl err, w) \<Rightarrow> e\<lparr>writer := w\<rparr>)"

section \<open>\<open>list_document_ids_by_partition_key\<close>\<close>

definition list_document_ids_by_partition_key ::
  "('w, 'a, 'd) tantivy \<Rightarrow> 'w engine \<Rightarrow> string \<Rightarrow> string list" where
  "list_document_ids_by_partition_key T e pk =
     (let cache_ids = map fst (filter (\<lambda>en. doc_partition_key (snd en) = pk) (uncommitted_docs e));
          top_docs = (case term_search T (writer e) FieldPartitionKey pk of Inl _ \<Rightarrow> [] | Inr addrs \<Rightarrow> addrs);
          id_of = (\<lambda>addr. case fetch_doc T (writer e) addr of
                     Inl _ \<Rightarrow> None | Inr d \<Rightarrow> doc_str T d FieldId)
      in cache_ids @ filter (\<lambda>i. i \<notin> set cache_ids) (List.map_filter id_of top_docs))"

end
