(* ===== verification/Engine_Props.thy ===== *)
theory Engine_Props
  imports Engine Reference_Index
begin

text \<open>
  What the engine of \<open>Engine\<close> guarantees. The step relation \<open>engine_step\<close> interleaves batches,
  rounds of the two background tasks and reader reloads; its invariants (\<open>engine_inv\<close>) tie the
  cache to what the index writer will publish. On top of them: last-writer-wins, the no-op on replay,
  read-your-writes across a commit, deletes, expiry times and the partition listing.
\<close>

section \<open>Expiry time\<close>

lemma expires_at_sint:
  "sint (expires_at_of wt ttl) =
     (case ttl of None \<Rightarrow> i64_max_int
      | Some t \<Rightarrow> min i64_max_int (uint wt + max 0 (sint t * 1000000)))"
proof (cases ttl)
  case (Some t)
  let ?m = "max_i64 (saturating_mul_i64 t 1000000) 0"
  have m: "sint ?m = min i64_max_int (max 0 (sint t * 1000000))"
    by (simp add: max_i64_def sint_saturating_mul clamp_i64_def i64_min_int_def i64_max_int_def)
  then have "uint ?m = min i64_max_int (max 0 (sint t * 1000000))"
    by (subst uint_of_nonneg_i64) (simp_all add: i64_max_int_def)
  then have sum: "uint (saturating_add_u64 wt ?m) =
      min (2 ^ 64 - 1) (uint wt + min i64_max_int (max 0 (sint t * 1000000)))"
    by (simp add: uint_saturating_add)
  have "sint (expires_at_of wt ttl) =
      (if uint (saturating_add_u64 wt ?m) \<le> i64_max_int then uint (saturating_add_u64 wt ?m) else i64_max_int)"
  proof (cases "uint (saturating_add_u64 wt ?m) \<le> i64_max_int")
    case True
    then have "sint (saturating_add_u64 wt ?m) = uint (saturating_add_u64 wt ?m)"
      using sint_of_int_i64 [of "uint (saturating_add_u64 wt ?m)"] uint_u64_range [of "saturating_add_u64 wt ?m"]
      by (simp add: i64_min_int_def)
    with True show ?thesis
      by (simp add: Some expires_at_of_def i64_try_from_def Let_def)
  qed (simp add: Some expires_at_of_def i64_try_from_def Let_def)
  moreover have "(if s \<le> i64_max_int then s else i64_max_int) = min i64_max_int (u + y)"
    if "s = min (2 ^ 64 - 1) (u + min i64_max_int y)" "0 \<le> u" "0 \<le> y" for s u y :: int
    using that by (auto simp: i64_max_int_def min_def)
  from this [OF sum] have "(if uint (saturating_add_u64 wt ?m) \<le> i64_max_int
      then uint (saturating_add_u64 wt ?m) else i64_max_int) = min i64_max_int (uint wt + max 0 (sint t * 1000000))"
    by simp
  ultimately show ?thesis by (simp add: Some)
qed (simp add: expires_at_of_def)

section \<open>One operation\<close>

text \<open>An upsert that is not stale: the cache takes the new document, and the writer loses every
  document of that id and gains the new one where the schema accepts it.\<close>

lemma do_upsert_stale: "is_stale (find_cached_or_indexed S T e (op_id op)) op \<Longrightarrow> do_upsert S T op e = (e, Skipped)"
  by (simp add: do_upsert_def)

lemma do_upsert_fresh:
  assumes "\<not> is_stale (find_cached_or_indexed S T e (op_id op)) op" "do_upsert S T op e = (e', r)"
  defines "u \<equiv> upserted_doc S (find_cached_or_indexed S T e (op_id op)) (current_generation e) op"
  shows "uncommitted_docs e' = hm_put (op_id op) u (uncommitted_docs e)"
    and "current_generation e' = current_generation e" "poisoned e' = poisoned e"
    and "(r \<noteq> Processed \<and> writer e' = delete_term T FieldId (op_id op) (writer e)) \<or>
      (r = Processed \<and> (\<exists>d. parse_document T (to_string S (wrapper_of u)) = Inr d \<and>
        add_document T d (delete_term T FieldId (op_id op) (writer e)) = Inr (writer e')))"
  using assms(1,2) unfolding u_def
  by (auto simp: do_upsert_def Let_def split: sum.splits)

lemmas op_defs = process_op_def do_delete_def do_partition_delete_def

lemma process_op_gen:
  "process_op S T op e = (e', r) \<Longrightarrow>
   current_generation e' = current_generation e \<and> poisoned e' = poisoned e"
  by (auto simp: op_defs do_upsert_def Let_def split: op_type.splits if_splits sum.splits)

lemma process_op_failed: "process_op S T op e = (e', Failed s) \<Longrightarrow> op_type_of op = OpUpsert"
  by (auto simp: op_defs Let_def split: op_type.splits if_splits)

section \<open>The batch loop\<close>

lemma process_ops_counts:
  "process_ops S T ops p s e = (e', Inr r) \<Longrightarrow>
   processed_count r + skipped_count r = p + s + of_nat (length ops) \<and> success r"
proof (induction S T ops p s e rule: process_ops.induct)
  case (2 S T op ops p s e)
  then show ?case
    by (cases "process_op S T op e"; cases "snd (process_op S T op e)") (auto simp: algebra_simps)
qed auto

text \<open>A property of the engine that every operation keeps is kept by a batch, failed or not.\<close>

lemma process_ops_invariant:
  assumes "\<And>op e e' r. op \<in> set ops \<Longrightarrow> I e \<Longrightarrow> process_op S T op e = (e', r) \<Longrightarrow> I e'"
    and "I e" "process_ops S T ops p s e = (e', res)"
  shows "I e'"
  using assms
proof (induction ops arbitrary: p s e)
  case (Cons op ops)
  obtain e1 r where r: "process_op S T op e = (e1, r)" by (cases "process_op S T op e")
  then have e1: "I e1" using Cons.prems(1) [of op e e1 r] Cons.prems(2) by simp
  have "I e'" if "process_ops S T ops p' s' e1 = (e', res)" for p' s'
    by (rule Cons.IH [OF _ e1 that]) (use Cons.prems(1) in auto)
  with Cons.prems(3) e1 show ?case by (auto simp: r split: op_outcome.splits)
qed simp

lemma process_batch_invariant:
  assumes "\<And>op e e' r. op \<in> set ops \<Longrightarrow> I e \<Longrightarrow> process_op S T op e = (e', r) \<Longrightarrow> I e'"
    and "I e" "process_batch S T ops e = (e', res)"
  shows "I e'"
  using assms process_ops_invariant [of ops I S T e 0 0 e' res]
  by (auto simp: process_batch_def split: if_splits)

section \<open>Well-formed documents\<close>

lemma json_get_wf: "json_wf v \<Longrightarrow> json_get k v = Some x \<Longrightarrow> json_wf x"
  by (cases v) (auto intro: json_wf_bt_get simp del: json_wf.simps)

lemma doc_of_stored_wf: "json_wf full \<Longrightarrow> json_wf (doc_doc (doc_of_stored i full))"
  using json_get_wf [of full "''document''"]
  by (auto simp: doc_of_stored_def split: option.splits json.splits list.splits)

lemma find_indexed_wf: "serde_wf S \<Longrightarrow> find_indexed S T w i = Some d \<Longrightarrow> json_wf (doc_doc d)"
  by (auto simp: find_indexed_def serde_wf_def doc_of_stored_wf split: list.splits sum.splits)

lemma upserted_json_wf:
  assumes "serde_wf S" "\<And>d. existing = Some d \<Longrightarrow> json_wf (doc_doc d)"
  shows "json_wf (upserted_json S existing op)"
proof -
  let ?current = "case existing of Some d \<Rightarrow> doc_doc d | None \<Rightarrow> JObject []"
  let ?patch = "case from_str S (op_payload_json op) of Some v \<Rightarrow> v | None \<Rightarrow> JNull"
  have "json_wf ?current" "json_wf ?patch"
    using assms by (auto simp: serde_wf_def split: option.splits)
  then have "json_wf (merge_json ?current ?patch)" by (rule merge_json_wf)
  then show ?thesis
    using assms(1) by (simp add: upserted_json_def Let_def apply_collection_deltas_wf)
qed

section \<open>The invariant\<close>

definition stored_as :: "serde \<Rightarrow> ('w, 'a, 'd) tantivy \<Rightarrow> 'd \<Rightarrow> doc \<Rightarrow> bool" where
  "stored_as S T x d =
     stores S T x (doc_id d) (doc_partition_key d) (doc_expires d) (doc_doc d) (doc_writetime d)"

text \<open>A sound snapshot of the index: every document came from the engine, no id twice.\<close>

definition sound_docs :: "serde \<Rightarrow> ('w, 'a, 'd) tantivy \<Rightarrow> 'd list \<Rightarrow> bool" where
  "sound_docs S T xs =
     ((\<forall>x \<in> set xs. \<exists>d. stored_as S T x d) \<and>
      (\<forall>i. length (filter (has_term T FieldId i) xs) \<le> 1))"

definition cache_inv :: "serde \<Rightarrow> ('w, 'a, 'd) tantivy \<Rightarrow> ('w, 'd) index_view \<Rightarrow> 'w engine \<Rightarrow> bool" where
  "cache_inv S T V e =
     (hm_inv (uncommitted_docs e) \<and>
      (\<forall>i d. hm_get (uncommitted_docs e) i = Some d \<longrightarrow>
         doc_id d = i \<and> json_wf (doc_doc d) \<and> doc_generation d = current_generation e \<and>
         (\<forall>x \<in> set (pending V (writer e)). has_term T FieldId i x \<longrightarrow> stored_as S T x d)))"

definition index_inv :: "serde \<Rightarrow> ('w, 'a, 'd) tantivy \<Rightarrow> ('w, 'd) index_view \<Rightarrow> 'w \<Rightarrow> bool" where
  "index_inv S T V w =
     (sound_docs S T (pending V w) \<and> sound_docs S T (committed V w) \<and> sound_docs S T (visible V w))"

text \<open>Documents the cache does not hold are as the last commit left them, or deleted since.\<close>

definition engine_inv :: "serde \<Rightarrow> ('w, 'a, 'd) tantivy \<Rightarrow> ('w, 'd) index_view \<Rightarrow> 'w engine \<Rightarrow> bool" where
  "engine_inv S T V e =
     (cache_inv S T V e \<and> index_inv S T V (writer e) \<and>
      (\<forall>x \<in> set (pending V (writer e)).
         x \<in> set (committed V (writer e)) \<or>
         (\<exists>i d. hm_get (uncommitted_docs e) i = Some d \<and> has_term T FieldId i x)))"

lemmas inv_defs = engine_inv_def cache_inv_def index_inv_def

lemma stored_as_terms:
  "stored_as S T x d \<Longrightarrow> has_term T FieldId i x \<longleftrightarrow> i = doc_id d"
  "stored_as S T x d \<Longrightarrow> has_term T FieldPartitionKey pk x \<longleftrightarrow> pk = doc_partition_key d"
  by (auto simp: stored_as_def stores_def has_term_def)

lemma sound_docs_Nil [simp]: "sound_docs S T []"
  by (simp add: sound_docs_def)

lemma length_filter_filter: "length (filter P xs) \<le> n \<Longrightarrow> length (filter P (filter Q xs)) \<le> n"
proof -
  have "length (filter P (filter Q xs)) \<le> length (filter P xs)"
    by (induction xs) auto
  then show "length (filter P xs) \<le> n \<Longrightarrow> length (filter P (filter Q xs)) \<le> n" by simp
qed

lemma sound_docs_filter: "sound_docs S T xs \<Longrightarrow> sound_docs S T (filter P xs)"
  unfolding sound_docs_def by (auto intro!: length_filter_filter simp del: filter_filter)

lemma sound_docs_replace:
  assumes "sound_docs S T xs" "stored_as S T x d" "i = doc_id d"
  shows "sound_docs S T (filter (\<lambda>y. \<not> has_term T FieldId i y) xs @ [x])"
proof -
  have "length (filter (has_term T FieldId j) (filter (\<lambda>y. \<not> has_term T FieldId i y) xs @ [x])) \<le> 1" for j
  proof (cases "j = i")
    case True
    then have "filter (has_term T FieldId j) (filter (\<lambda>y. \<not> has_term T FieldId i y) xs) = []"
      by (auto simp: filter_empty_conv)
    then show ?thesis by simp
  next
    case False
    then have "\<not> has_term T FieldId j x"
      using assms(2,3) by (simp add: stored_as_terms)
    moreover have "length (filter (has_term T FieldId j) xs) \<le> 1"
      using assms(1) by (simp add: sound_docs_def)
    ultimately show ?thesis
      using length_filter_filter [of "has_term T FieldId j" xs 1 "\<lambda>y. \<not> has_term T FieldId i y"] by simp
  qed
  then show ?thesis
    using assms by (auto simp: sound_docs_def)
qed

subsection \<open>Every operation keeps it\<close>

lemma find_wf:
  assumes "serde_wf S" "cache_inv S T V e" "find_cached_or_indexed S T e i = Some d"
  shows "json_wf (doc_doc d)"
  using assms find_indexed_wf [of S T "writer e" i d]
  by (auto simp: find_cached_or_indexed_def cache_inv_def split: option.splits)

lemma engine_inv_upsert:
  assumes laws: "serde_wf S" "writer_laws T V" "storage_laws S T"
    and inv: "engine_inv S T V e" and run: "do_upsert S T op e = (e', r)"
  shows "engine_inv S T V e'"
proof (cases "is_stale (find_cached_or_indexed S T e (op_id op)) op")
  case True
  then show ?thesis using inv run by (simp add: do_upsert_stale)
next
  case False
  define u where "u = upserted_doc S (find_cached_or_indexed S T e (op_id op)) (current_generation e) op"
  note eff = do_upsert_fresh [OF False run, folded u_def]
  have c: "cache_inv S T V e" and sound: "sound_docs S T (pending V (writer e))"
    and idx: "index_inv S T V (writer e)"
    using inv by (simp_all add: inv_defs)
  have hm: "hm_inv (uncommitted_docs e)" using c by (simp add: cache_inv_def)
  have wf: "json_wf (upserted_json S (find_cached_or_indexed S T e (op_id op)) op)"
    using find_wf [OF laws(1) c] by (intro upserted_json_wf [OF laws(1)]) auto
  have u: "doc_id u = op_id op" "json_wf (doc_doc u)" "doc_generation u = current_generation e"
    using wf by (simp_all add: u_def upserted_doc_def)
  have get: "hm_get (uncommitted_docs e') j = (if j = op_id op then Some u else hm_get (uncommitted_docs e) j)" for j
    by (simp add: eff(1) hmap.get_put hm)
  let ?gone = "filter (\<lambda>y. \<not> has_term T FieldId (op_id op) y) (pending V (writer e))"
  have pend: "(pending V (writer e') = ?gone \<or>
      (\<exists>x. stored_as S T x u \<and> pending V (writer e') = ?gone @ [x])) \<and>
      committed V (writer e') = committed V (writer e) \<and> visible V (writer e') = visible V (writer e)"
    using eff(4)
  proof (elim disjE conjE exE)
    fix x
    assume "parse_document T (to_string S (wrapper_of u)) = Inr x"
      and add: "add_document T x (delete_term T FieldId (op_id op) (writer e)) = Inr (writer e')"
    then have "stored_as S T x u"
      using laws(3) u(2) by (simp add: storage_laws_def wrapper_of_def stored_as_def)
    then show ?thesis
      using writer_add [OF laws(2) add] by (auto simp: writer_delete [OF laws(2)])
  qed (simp add: writer_delete [OF laws(2)])
  have "sound_docs S T (pending V (writer e'))"
    using pend sound u(1) by (auto simp: sound_docs_replace sound_docs_filter)
  then have "index_inv S T V (writer e')"
    using idx pend by (simp add: index_inv_def)
  moreover have "cache_inv S T V e'"
    using c pend u eff(2) stored_as_terms(1) [of S T _ u] unfolding cache_inv_def get
    by (auto simp: hmap.inv_put hm eff(1) split: if_splits)
  moreover have "\<forall>x \<in> set (pending V (writer e')). x \<in> set (committed V (writer e')) \<or>
      (\<exists>i d. hm_get (uncommitted_docs e') i = Some d \<and> has_term T FieldId i x)"
  proof
    fix x
    assume x: "x \<in> set (pending V (writer e'))"
    show "x \<in> set (committed V (writer e')) \<or>
      (\<exists>i d. hm_get (uncommitted_docs e') i = Some d \<and> has_term T FieldId i x)"
    proof (cases "has_term T FieldId (op_id op) x")
      case True
      then show ?thesis using get by auto
    next
      case False
      then have "x \<in> set (pending V (writer e))"
        using x pend stored_as_terms(1) [of S T x u "op_id op"] u(1) by auto
      then show ?thesis
        using inv pend get False unfolding engine_inv_def by (metis (no_types))
    qed
  qed
  ultimately show ?thesis by (simp add: engine_inv_def)
qed

text \<open>The writer loses documents and the cache loses at most the entries whose documents go.\<close>

lemma engine_inv_shrink:
  assumes inv: "engine_inv S T V e"
    and pend: "pending V (writer e') = filter P (pending V (writer e))"
    and rest: "committed V (writer e') = committed V (writer e)" "visible V (writer e') = visible V (writer e)"
      "current_generation e' = current_generation e" "hm_inv (uncommitted_docs e')"
    and cache: "\<And>i d. hm_get (uncommitted_docs e') i = Some d \<Longrightarrow> hm_get (uncommitted_docs e) i = Some d"
    and gone: "\<And>i d x. hm_get (uncommitted_docs e) i = Some d \<Longrightarrow> hm_get (uncommitted_docs e') i = None \<Longrightarrow>
      x \<in> set (pending V (writer e)) \<Longrightarrow> has_term T FieldId i x \<Longrightarrow> \<not> P x"
  shows "engine_inv S T V e'"
proof -
  have "cache_inv S T V e'"
    using inv pend rest by (auto simp: inv_defs dest!: cache)
  moreover have "index_inv S T V (writer e')"
    using inv pend rest by (simp add: inv_defs sound_docs_filter)
  moreover have "\<forall>x \<in> set (pending V (writer e')). x \<in> set (committed V (writer e')) \<or>
      (\<exists>i d. hm_get (uncommitted_docs e') i = Some d \<and> has_term T FieldId i x)"
  proof
    fix x
    assume "x \<in> set (pending V (writer e'))"
    then have x: "x \<in> set (pending V (writer e))" "P x" using pend by auto
    consider "x \<in> set (committed V (writer e))" |
      i d where "hm_get (uncommitted_docs e) i = Some d" "has_term T FieldId i x"
      using inv x(1) unfolding engine_inv_def by blast
    then show "x \<in> set (committed V (writer e')) \<or>
        (\<exists>i d. hm_get (uncommitted_docs e') i = Some d \<and> has_term T FieldId i x)"
    proof cases
      case 2
      then show ?thesis using gone [OF 2(1) _ x(1) 2(2)] x(2) by (cases "hm_get (uncommitted_docs e') i") auto
    qed (simp add: rest)
  qed
  ultimately show ?thesis by (simp add: engine_inv_def)
qed

lemma engine_inv_delete:
  assumes laws: "writer_laws T V" and inv: "engine_inv S T V e" and run: "do_delete S T op e = (e', r)"
  shows "engine_inv S T V e'"
proof (cases "is_stale (find_cached_or_indexed S T e (op_id op)) op")
  case False
  then have e': "e' = e\<lparr>writer := delete_term T FieldId (op_id op) (writer e),
      uncommitted_docs := hm_remove (op_id op) (uncommitted_docs e)\<rparr>"
    using run by (simp add: do_delete_def)
  have hm: "hm_inv (uncommitted_docs e)" using inv by (simp add: inv_defs)
  show ?thesis
    by (rule engine_inv_shrink [OF inv, of e' "\<lambda>d. \<not> has_term T FieldId (op_id op) d"])
      (auto simp: e' writer_delete [OF laws] hmap.get_remove hmap.inv_remove hm split: if_splits)
qed (use run inv in \<open>simp add: do_delete_def\<close>)

lemma engine_inv_partition_delete:
  assumes laws: "writer_laws T V" and inv: "engine_inv S T V e" and run: "do_partition_delete T op e = (e', r)"
  shows "engine_inv S T V e'"
proof -
  have e': "e' = e\<lparr>writer := delete_term T FieldPartitionKey (op_key op) (writer e),
      uncommitted_docs := hm_retain (\<lambda>_ d. doc_partition_key d \<noteq> op_key op) (uncommitted_docs e)\<rparr>"
    using run by (simp add: do_partition_delete_def Let_def)
  have hm: "hm_inv (uncommitted_docs e)" using inv by (simp add: inv_defs)
  have "has_term T FieldPartitionKey (op_key op) x"
    if "hm_get (uncommitted_docs e) i = Some d" "doc_partition_key d = op_key op"
      "x \<in> set (pending V (writer e))" "has_term T FieldId i x" for i d x
  proof -
    have "stored_as S T x d"
      using that inv unfolding engine_inv_def cache_inv_def by blast
    with that(2) show ?thesis by (simp add: stored_as_terms)
  qed
  then show ?thesis
    by (intro engine_inv_shrink [OF inv, of e' "\<lambda>d. \<not> has_term T FieldPartitionKey (op_key op) d"])
      (auto simp: e' writer_delete [OF laws] hmap.get_retain hmap.inv_retain hm split: option.splits if_splits)
qed

lemma engine_inv_op:
  assumes "serde_wf S" "writer_laws T V" "storage_laws S T" "engine_inv S T V e"
    and "process_op S T op e = (e', r)"
  shows "engine_inv S T V e'"
proof (cases "op_type_of op")
  case OpUnspecified
  then show ?thesis using assms(4,5) by (simp add: process_op_def)
next
  case OpUpsert
  then show ?thesis using assms(5) by (intro engine_inv_upsert [OF assms(1-4)]) (simp add: process_op_def)
next
  case OpDelete
  then show ?thesis using assms(5) by (intro engine_inv_delete [OF assms(2,4)]) (simp add: process_op_def)
next
  case OpPartitionDelete
  then show ?thesis using assms(5) by (intro engine_inv_partition_delete [OF assms(2,4)]) (simp add: process_op_def)
qed

lemma engine_inv_batch:
  assumes "serde_wf S" "writer_laws T V" "storage_laws S T" "engine_inv S T V e"
    and "process_batch S T ops e = (e', res)"
  shows "engine_inv S T V e'"
  by (rule process_batch_invariant [of ops "engine_inv S T V" S T e]) (use assms engine_inv_op in blast)+

subsection \<open>Background rounds keep it\<close>

text \<open>A round in which Tantivy reports no error.\<close>

definition commit_ok :: "('w, 'a, 'd) tantivy \<Rightarrow> 'w \<Rightarrow> bool" where
  "commit_ok T w = (case commit T w of (Inr _, _) \<Rightarrow> True | _ \<Rightarrow> False)"

definition prune_ok :: "('w, 'a, 'd) tantivy \<Rightarrow> i64 \<Rightarrow> 'w \<Rightarrow> bool" where
  "prune_ok T now w = (case delete_until T now w of (Inr _, w') \<Rightarrow> commit_ok T w' | _ \<Rightarrow> False)"

lemma commit_okE:
  assumes "commit_ok T w"
  obtains s w' where "commit T w = (Inr s, w')"
  using assms by (auto simp: commit_ok_def split: prod.splits sum.splits)

lemma commit_tick_ok:
  assumes laws: "writer_laws T V" and inv: "cache_inv S T V e" and "commit_ok T (writer e)" "\<not> poisoned e"
  defines "e' \<equiv> commit_tick T False e"
  shows "pending V (writer e') = pending V (writer e)" "committed V (writer e') = pending V (writer e)"
    "visible V (writer e') = visible V (writer e)" "uncommitted_docs e' = []" "\<not> poisoned e'"
proof -
  obtain s w' where c: "commit T (writer e) = (Inr s, w')" using assms(3) by (rule commit_okE)
  then show "pending V (writer e') = pending V (writer e)" "committed V (writer e') = pending V (writer e)"
    "visible V (writer e') = visible V (writer e)" "\<not> poisoned e'"
    using writer_commit [OF laws c] assms(4) by (simp_all add: e'_def commit_tick_def Let_def)
  have "\<forall>en \<in> set (uncommitted_docs e). doc_generation (snd en) = current_generation e"
    using inv by (auto simp: cache_inv_def hm_get_mem)
  then have "hm_retain (\<lambda>_ d. current_generation e < doc_generation d) (uncommitted_docs e) = []"
    by (auto simp: hm_retain_def filter_empty_conv)
  with c assms(4) show "uncommitted_docs e' = []"
    by (simp add: e'_def commit_tick_def Let_def)
qed

lemma engine_inv_commit:
  assumes "writer_laws T V" "engine_inv S T V e" "c \<or> commit_ok T (writer e)"
  shows "engine_inv S T V (commit_tick T c e)"
proof (cases "c \<or> poisoned e")
  case False
  then show ?thesis
    using commit_tick_ok [OF assms(1), of S e] assms by (auto simp: inv_defs)
qed (use assms in \<open>simp add: commit_tick_def\<close>)

lemma engine_inv_prune:
  assumes laws: "writer_laws T V" and inv: "engine_inv S T V e" and ok: "c \<or> prune_ok T now (writer e)"
  shows "engine_inv S T V (prune_tick T c now e)"
proof (cases "c \<or> poisoned e")
  case False
  then obtain s w1 where d: "delete_until T now (writer e) = (Inr s, w1)" and "commit_ok T w1"
    using ok by (auto simp: prune_ok_def split: prod.splits sum.splits)
  from \<open>commit_ok T w1\<close> obtain s' w2 where w2: "commit T w1 = (Inr s', w2)" by (rule commit_okE)
  have "engine_inv S T V (e\<lparr>writer := w1\<rparr>)"
    by (rule engine_inv_shrink [OF inv, of _ "\<lambda>d. \<not> expired_by T now d"])
      (use inv in \<open>auto simp: writer_delete_until [OF laws d] inv_defs\<close>)
  then have "engine_inv S T V (e\<lparr>writer := w2\<rparr>)"
    by (simp add: inv_defs writer_commit [OF laws w2])
  then show ?thesis using False d w2 by (simp add: prune_tick_def)
qed (use inv in \<open>simp add: prune_tick_def\<close>)

definition reload_reader :: "('w, 'a, 'd) tantivy \<Rightarrow> 'w engine \<Rightarrow> 'w engine" where
  "reload_reader T e = e\<lparr>writer := reload T (writer e)\<rparr>"

lemma engine_inv_reload: "writer_laws T V \<Longrightarrow> engine_inv S T V e \<Longrightarrow> engine_inv S T V (reload_reader T e)"
  by (simp add: reload_reader_def inv_defs writer_reload)

subsection \<open>Every run\<close>

inductive engine_step :: "serde \<Rightarrow> ('w, 'a, 'd) tantivy \<Rightarrow> 'w engine \<Rightarrow> 'w engine \<Rightarrow> bool"
  for S T where
  batch: "process_batch S T ops e = (e', res) \<Longrightarrow> engine_step S T e e'"
| commits: "contended \<or> commit_ok T (writer e) \<Longrightarrow> engine_step S T e (commit_tick T contended e)"
| prunes: "contended \<or> prune_ok T now (writer e) \<Longrightarrow> engine_step S T e (prune_tick T contended now e)"
| reloads: "engine_step S T e (reload_reader T e)"
| panics: "engine_step S T e (e\<lparr>poisoned := True\<rparr>)"

inductive engine_reach :: "serde \<Rightarrow> ('w, 'a, 'd) tantivy \<Rightarrow> 'w \<Rightarrow> 'w engine \<Rightarrow> bool"
  for S T w where
  start: "engine_reach S T w (new_engine w)"
| step: "engine_reach S T w e \<Longrightarrow> engine_step S T e e' \<Longrightarrow> engine_reach S T w e'"

lemma engine_inv_step:
  "engine_step S T e e' \<Longrightarrow> serde_wf S \<Longrightarrow> writer_laws T V \<Longrightarrow> storage_laws S T \<Longrightarrow> engine_inv S T V e \<Longrightarrow>
   engine_inv S T V e'"
proof (induction rule: engine_step.induct)
  case (panics e)
  then show ?case by (simp add: inv_defs)
qed (auto intro: engine_inv_batch engine_inv_commit engine_inv_prune engine_inv_reload)

definition fresh_index :: "('w, 'd) index_view \<Rightarrow> 'w \<Rightarrow> bool" where
  "fresh_index V w = (pending V w = [] \<and> committed V w = [] \<and> visible V w = [])"

lemma engine_inv_reach:
  assumes "engine_reach S T w e" "fresh_index V w" "serde_wf S" "writer_laws T V" "storage_laws S T"
  shows "engine_inv S T V e"
  using assms
proof (induction rule: engine_reach.induct)
  case start
  then show ?case by (simp add: inv_defs new_engine_def fresh_index_def)
qed (use engine_inv_step in blast)

section \<open>What a lookup finds\<close>

definition stored_doc :: "serde \<Rightarrow> ('w, 'a, 'd) tantivy \<Rightarrow> string \<Rightarrow> 'd \<Rightarrow> doc option" where
  "stored_doc S T i x = map_option (doc_of_stored i) (from_str S (doc_to_json T x))"

lemma first_of_JArray: "bt_get m k = Some (JArray [v]) \<Longrightarrow> first_of k (JObject m) = Some v"
  by (simp add: first_of_def first_elem_def)

text \<open>A stored document reads back as written, but for the form the JSON field gives its body.\<close>

lemma stored_doc_back:
  assumes "stored_as S T x d"
  shows "stored_doc S T (doc_id d) x = Some (d\<lparr>doc_doc := stored_form T (doc_doc d), doc_generation := 0\<rparr>)"
proof -
  obtain m where m: "from_str S (doc_to_json T x) = Some (JObject m)"
    "bt_get m ''writetime'' = Some (JArray [JNumber (PosInt (doc_writetime d))])"
    "bt_get m ''expires_at'' = Some (JArray [JNumber (number_of_i64 (doc_expires d))])"
    "bt_get m ''partition_key'' = Some (JArray [JString (doc_partition_key d)])"
    "bt_get m ''document'' = Some (JArray [stored_form T (doc_doc d)])"
    using assms by (auto simp: stored_as_def stores_def)
  then show ?thesis
    by (simp add: stored_doc_def doc_of_stored_def first_of_JArray)
qed

lemma mset_le1_eq: "mset xs = mset ys \<Longrightarrow> length ys \<le> 1 \<Longrightarrow> xs = ys"
  by (cases ys; cases "tl ys") (auto simp: size_mset [symmetric] simp del: size_mset)

lemma find_indexed_visible:
  assumes "reader_laws T V" "sound_docs S T (visible V w)"
  shows "find_indexed S T w i =
    (case filter (has_term T FieldId i) (visible V w) of [] \<Rightarrow> None | x # _ \<Rightarrow> stored_doc S T i x)"
proof -
  obtain addrs ds where r: "term_search T w FieldId i = Inr addrs" "map (fetch_doc T w) addrs = map Inr ds"
    "mset ds = mset (filter (has_term T FieldId i) (visible V w))"
    using assms(1) by (rule reader_search)
  have "ds = filter (has_term T FieldId i) (visible V w)"
    using assms(2) by (intro mset_le1_eq [OF r(3)]) (simp add: sound_docs_def)
  then show ?thesis
    using r by (cases addrs; cases ds) (auto simp: find_indexed_def stored_doc_def)
qed

lemma find_visible_cong:
  assumes "reader_laws T V" "sound_docs S T (visible V (writer e))"
    and "visible V (writer e') = visible V (writer e)" "hm_get (uncommitted_docs e') i = hm_get (uncommitted_docs e) i"
  shows "find_cached_or_indexed S T e' i = find_cached_or_indexed S T e i"
  using assms find_indexed_visible [of T V S "writer e" i] find_indexed_visible [of T V S "writer e'" i]
  by (simp add: find_cached_or_indexed_def split: option.split)

section \<open>Upserts refine a last-writer-wins map\<close>

text \<open>The abstract engine: what each id holds. An upsert updates it unless it holds a document at
  least as new.\<close>

definition spec_upsert :: "serde \<Rightarrow> u64 \<Rightarrow> index_operation \<Rightarrow> (string \<Rightarrow> doc option) \<Rightarrow> (string \<Rightarrow> doc option)" where
  "spec_upsert S generation op m =
     (if is_stale (m (op_id op)) op then m
      else m(op_id op \<mapsto> upserted_doc S (m (op_id op)) generation op))"

definition all_upserts :: "index_operation list \<Rightarrow> bool" where
  "all_upserts ops = list_all (\<lambda>op. op_type_of op = OpUpsert) ops"

lemma do_upsert_visible:
  assumes "writer_laws T V" "do_upsert S T op e = (e', r)"
  shows "visible V (writer e') = visible V (writer e)"
proof (cases "is_stale (find_cached_or_indexed S T e (op_id op)) op")
  case False
  from do_upsert_fresh(4) [OF False assms(2)] show ?thesis
    using writer_add(3) [OF assms(1)] by (auto simp: writer_delete [OF assms(1)])
qed (use assms in \<open>simp add: do_upsert_stale\<close>)

lemma upsert_refines:
  assumes laws: "writer_laws T V" "reader_laws T V" and inv: "engine_inv S T V e"
    and run: "do_upsert S T op e = (e', r)"
  shows "find_cached_or_indexed S T e' = spec_upsert S (current_generation e) op (find_cached_or_indexed S T e)"
proof (cases "is_stale (find_cached_or_indexed S T e (op_id op)) op")
  case True
  then show ?thesis using run by (simp add: do_upsert_stale spec_upsert_def)
next
  case False
  have hm: "hm_inv (uncommitted_docs e)" and sound: "sound_docs S T (visible V (writer e))"
    using inv by (simp_all add: inv_defs)
  note eff = do_upsert_fresh [OF False run]
  have "find_cached_or_indexed S T e' i = find_cached_or_indexed S T e i" if "i \<noteq> op_id op" for i
    using that by (intro find_visible_cong [OF laws(2) sound do_upsert_visible [OF laws(1) run]])
      (simp add: eff(1) hmap.get_put hm)
  moreover have "find_cached_or_indexed S T e' (op_id op) =
      Some (upserted_doc S (find_cached_or_indexed S T e (op_id op)) (current_generation e) op)"
    by (simp add: find_cached_or_indexed_def [of S T e'] eff(1) hmap.get_put hm)
  ultimately show ?thesis using False by (auto simp: spec_upsert_def)
qed

lemma process_upserts_induct:
  assumes laws: "serde_wf S" "writer_laws T V" "storage_laws S T" "reader_laws T V"
    and "engine_inv S T V e" "all_upserts ops" "process_ops S T ops p s e = (e', Inr r)"
  shows "find_cached_or_indexed S T e' = fold (spec_upsert S (current_generation e)) ops (find_cached_or_indexed S T e)
    \<and> current_generation e' = current_generation e"
  using assms(5-)
proof (induction ops arbitrary: p s e)
  case (Cons op ops)
  obtain e1 o1 where r1: "process_op S T op e = (e1, o1)" by (cases "process_op S T op e")
  then have u: "do_upsert S T op e = (e1, o1)"
    using Cons.prems(2) by (simp add: all_upserts_def process_op_def)
  have inv1: "engine_inv S T V e1"
    using engine_inv_upsert [OF laws(1-3) Cons.prems(1) u] .
  obtain p' s' where rest: "process_ops S T ops p' s' e1 = (e', Inr r)"
    using Cons.prems(3) by (cases o1) (auto simp: r1)
  show ?case
    using Cons.IH [OF inv1 _ rest] Cons.prems(2) upsert_refines [OF laws(2,4) Cons.prems(1) u]
      process_op_gen [OF r1] by (simp add: all_upserts_def)
qed simp

subsection \<open>The specification's own laws\<close>

lemma spec_upsert_stale_after: "is_stale (spec_upsert S g op m (op_id op)) op"
  by (auto simp: spec_upsert_def is_stale_def upserted_doc_def)

lemma is_stale_iff: "is_stale acc op \<longleftrightarrow> (\<exists>d. acc = Some d \<and> op_writetime op \<le> doc_writetime d)"
  by (auto simp: is_stale_def split: option.splits)

lemma spec_upsert_grows:
  "m i = Some d \<Longrightarrow> \<exists>d'. spec_upsert S g op m i = Some d' \<and> doc_writetime d \<le> doc_writetime d'"
  by (auto simp: spec_upsert_def is_stale_iff upserted_doc_def)

lemma spec_upserts_grow:
  "m i = Some d \<Longrightarrow> \<exists>d'. fold (spec_upsert S g) ops m i = Some d' \<and> doc_writetime d \<le> doc_writetime d'"
proof (induction ops arbitrary: m d)
  case (Cons op ops)
  obtain d1 where "spec_upsert S g op m i = Some d1" "doc_writetime d \<le> doc_writetime d1"
    using spec_upsert_grows [of m i d S g op] Cons.prems by blast
  then show ?case using Cons.IH [of "spec_upsert S g op m" d1] by (auto intro: order_trans)
qed simp

lemma spec_upserts_stale: "op \<in> set ops \<Longrightarrow> is_stale (fold (spec_upsert S g) ops m (op_id op)) op"
proof (induction ops arbitrary: m)
  case (Cons o' ops)
  show ?case
  proof (cases "op = o'")
    case True
    obtain d where "spec_upsert S g op m (op_id op) = Some d" "op_writetime op \<le> doc_writetime d"
      using spec_upsert_stale_after [of S g op m] by (auto simp: is_stale_iff)
    then show ?thesis
      using spec_upserts_grow [of "spec_upsert S g op m" "op_id op" d S g ops] True
      by (auto simp: is_stale_iff intro: order_trans)
  qed (use Cons in simp)
qed simp

text \<open>The node already holds a write of that id at least as new.\<close>

definition holds_write :: "serde \<Rightarrow> ('w, 'a, 'd) tantivy \<Rightarrow> 'w engine \<Rightarrow> index_operation \<Rightarrow> bool" where
  "holds_write S T e op = is_stale (find_cached_or_indexed S T e (op_id op)) op"

lemma upsert_batch_grows:
  assumes laws: "serde_wf S" "writer_laws T V" "storage_laws S T" "reader_laws T V"
    and inv: "engine_inv S T V e" and ups: "all_upserts ops" and run: "process_batch S T ops e = (e', res)"
  shows "engine_inv S T V e' \<and> (\<forall>op. holds_write S T e op \<longrightarrow> holds_write S T e' op)"
proof -
  let ?I = "\<lambda>e1. engine_inv S T V e1 \<and> (\<forall>op. holds_write S T e op \<longrightarrow> holds_write S T e1 op)"
  have "?I e2" if "op \<in> set ops" "?I e1" "process_op S T op e1 = (e2, r)" for op e1 e2 r
  proof -
    have u: "do_upsert S T op e1 = (e2, r)"
      using that ups by (auto simp: process_op_def all_upserts_def list_all_iff)
    note ref = upsert_refines [OF laws(2,4) conjunct1 [OF that(2)] u]
    have "holds_write S T e2 op'" if "holds_write S T e1 op'" for op'
      using that spec_upsert_grows [of "find_cached_or_indexed S T e1" "op_id op'" _ S "current_generation e1" op]
      by (fastforce simp: holds_write_def is_stale_iff ref intro: order_trans)
    then show ?thesis using that(2) engine_inv_upsert [OF laws(1-3) conjunct1 [OF that(2)] u] by blast
  qed
  then show ?thesis
    by (intro process_batch_invariant [of ops ?I S T e e' res]) (use inv run in blast)+
qed

definition newest :: "u64 option \<Rightarrow> u64 list \<Rightarrow> u64 option" where
  "newest acc ws = fold (\<lambda>w acc. Some (case acc of None \<Rightarrow> w | Some v \<Rightarrow> max v w)) ws acc"

lemma spec_upserts_writetime:
  "map_option doc_writetime (fold (spec_upsert S g) ops m i) =
     newest (map_option doc_writetime (m i)) (map op_writetime (filter (\<lambda>op. op_id op = i) ops))"
proof (induction ops arbitrary: m)
  case (Cons op ops)
  have "map_option doc_writetime (spec_upsert S g op m i) =
      (if op_id op = i then newest (map_option doc_writetime (m i)) [op_writetime op]
       else map_option doc_writetime (m i))"
    by (cases "m i") (auto simp: spec_upsert_def is_stale_iff newest_def upserted_doc_def max_def)
  then show ?case using Cons by (simp add: newest_def)
qed (simp add: newest_def)

lemma newest_max: "newest acc ws = (if acc = None \<and> ws = [] then None else Some (Max (set_option acc \<union> set ws)))"
proof (induction ws arbitrary: acc)
  case Nil
  then show ?case by (cases acc) (simp_all add: newest_def)
next
  case (Cons w ws)
  let ?acc = "Some (case acc of None \<Rightarrow> w | Some v \<Rightarrow> max v w)"
  have "Max (set_option ?acc \<union> set ws) = Max (set_option acc \<union> set (w # ws))"
    by (cases acc; cases "ws = []") (auto simp: Max_insert2 ac_simps)
  then show ?case using Cons [of ?acc] by (simp add: newest_def)
qed

lemma upsert_batch_held:
  assumes laws: "serde_wf S" "writer_laws T V" "storage_laws S T" "reader_laws T V"
    and "engine_inv S T V e" "all_upserts ops" "process_batch S T ops e = (e', Inr r)" "op \<in> set ops"
  shows "holds_write S T e' op"
  using process_upserts_induct [OF assms(1-6), of 0 0 e' r] spec_upserts_stale [OF assms(8)] assms(7)
  by (simp add: process_batch_def holds_write_def split: if_splits)

text \<open>A batch of stale upserts does nothing.\<close>

lemma process_ops_all_stale:
  assumes "all_upserts ops" "\<And>op. op \<in> set ops \<Longrightarrow> is_stale (find_cached_or_indexed S T e (op_id op)) op"
  shows "process_ops S T ops p s e =
    (e, Inr \<lparr>processed_count = p, skipped_count = s + of_nat (length ops), success = True\<rparr>)"
  using assms
proof (induction ops arbitrary: s)
  case (Cons op ops)
  have "process_op S T op e = (e, Skipped)"
    using Cons.prems by (simp add: all_upserts_def process_op_def do_upsert_stale)
  then show ?case using Cons.IH [of "s + 1"] Cons.prems by (simp add: all_upserts_def algebra_simps)
qed simp

section \<open>Deletes, commits and prunes\<close>

lemma do_delete_fresh:
  assumes "\<not> is_stale (find_cached_or_indexed S T e (op_id op)) op"
  shows "do_delete S T op e =
    (e\<lparr>writer := delete_term T FieldId (op_id op) (writer e),
       uncommitted_docs := hm_remove (op_id op) (uncommitted_docs e)\<rparr>, Processed)"
  using assms by (simp add: do_delete_def)

lemma find_after_publish:
  assumes laws: "writer_laws T V" "reader_laws T V" and inv: "engine_inv S T V e"
    and ok: "commit_ok T (writer e)" "\<not> poisoned e"
  shows "find_cached_or_indexed S T (reload_reader T (commit_tick T False e)) i =
    (case filter (has_term T FieldId i) (pending V (writer e)) of [] \<Rightarrow> None | x # _ \<Rightarrow> stored_doc S T i x)"
proof -
  have c: "cache_inv S T V e" and sound: "sound_docs S T (pending V (writer e))"
    using inv by (simp_all add: inv_defs)
  note t = commit_tick_ok [OF laws(1) c ok]
  have "visible V (writer (reload_reader T (commit_tick T False e))) = pending V (writer e)"
    by (simp add: reload_reader_def writer_reload [OF laws(1)] t)
  moreover have "uncommitted_docs (reload_reader T (commit_tick T False e)) = []"
    by (simp add: reload_reader_def t)
  ultimately show ?thesis
    using find_indexed_visible [OF laws(2), of S "writer (reload_reader T (commit_tick T False e))" i] sound
    by (simp add: find_cached_or_indexed_def)
qed

lemma filter_set_Cons: "filter P xs = y # ys \<Longrightarrow> y \<in> set xs \<and> P y"
  by (metis filter_eq_ConsD in_set_conv_decomp)

text \<open>What one commit and reload later a lookup of a cached id finds, where the schema accepted the
  document.\<close>

lemma find_cached_after_publish:
  assumes laws: "writer_laws T V" "reader_laws T V" and inv: "engine_inv S T V e"
    and ok: "commit_ok T (writer e)" "\<not> poisoned e"
    and d: "hm_get (uncommitted_docs e) i = Some d"
    and x: "x \<in> set (pending V (writer e))" "has_term T FieldId i x"
  shows "find_cached_or_indexed S T (reload_reader T (commit_tick T False e)) i =
    Some (d\<lparr>doc_doc := stored_form T (doc_doc d), doc_generation := 0\<rparr>)"
proof -
  have "doc_id d = i" and st: "\<forall>x \<in> set (pending V (writer e)). has_term T FieldId i x \<longrightarrow> stored_as S T x d"
    using inv d unfolding inv_defs by blast+
  obtain y ys where y: "filter (has_term T FieldId i) (pending V (writer e)) = y # ys"
    using x by (cases "filter (has_term T FieldId i) (pending V (writer e))") (auto simp: filter_empty_conv)
  have "y \<in> set (pending V (writer e)) \<and> has_term T FieldId i y"
    using filter_set_Cons [OF y] by simp
  then have "stored_doc S T i y = Some (d\<lparr>doc_doc := stored_form T (doc_doc d), doc_generation := 0\<rparr>)"
    using stored_doc_back [of S T y d] st \<open>doc_id d = i\<close> by simp
  then show ?thesis using find_after_publish [OF laws inv ok, of i] y by simp
qed

lemma prune_tick_ok:
  assumes laws: "writer_laws T V" and ok: "prune_ok T now (writer e)" "\<not> poisoned e"
  defines "e' \<equiv> prune_tick T False now e"
  shows "pending V (writer e') = filter (\<lambda>d. \<not> expired_by T now d) (pending V (writer e))"
    "committed V (writer e') = filter (\<lambda>d. \<not> expired_by T now d) (pending V (writer e))"
    "uncommitted_docs e' = uncommitted_docs e"
proof -
  obtain s w1 where d: "delete_until T now (writer e) = (Inr s, w1)" and "commit_ok T w1"
    using ok by (auto simp: prune_ok_def split: prod.splits sum.splits)
  from \<open>commit_ok T w1\<close> obtain s' w2 where w2: "commit T w1 = (Inr s', w2)" by (rule commit_okE)
  show "pending V (writer e') = filter (\<lambda>d. \<not> expired_by T now d) (pending V (writer e))"
    "committed V (writer e') = filter (\<lambda>d. \<not> expired_by T now d) (pending V (writer e))"
    "uncommitted_docs e' = uncommitted_docs e"
    using writer_commit [OF laws w2] writer_delete_until [OF laws d]
    by (simp_all add: e'_def prune_tick_def ok(2) d w2)
qed

section \<open>Upserts that were all processed are in the index\<close>

text \<open>Every id of the batch is cached and will be published.\<close>

definition covered :: "('w, 'a, 'd) tantivy \<Rightarrow> ('w, 'd) index_view \<Rightarrow> 'w engine \<Rightarrow> string \<Rightarrow> bool" where
  "covered T V e i =
     (hm_get (uncommitted_docs e) i \<noteq> None \<and> (\<exists>x \<in> set (pending V (writer e)). has_term T FieldId i x))"

lemma do_upsert_covered:
  assumes laws: "serde_wf S" "writer_laws T V" "storage_laws S T"
    and inv: "engine_inv S T V e" and run: "do_upsert S T op e = (e', Processed)"
  shows "covered T V e' (op_id op)" "covered T V e i \<Longrightarrow> covered T V e' i"
proof -
  have fresh: "\<not> is_stale (find_cached_or_indexed S T e (op_id op)) op"
    using run by (auto simp: do_upsert_def Let_def split: if_splits)
  define u where "u = upserted_doc S (find_cached_or_indexed S T e (op_id op)) (current_generation e) op"
  note eff = do_upsert_fresh [OF fresh run, folded u_def]
  have c: "cache_inv S T V e" using inv by (simp add: engine_inv_def)
  have "json_wf (upserted_json S (find_cached_or_indexed S T e (op_id op)) op)"
    using find_wf [OF laws(1) c] by (intro upserted_json_wf [OF laws(1)]) auto
  then have u: "doc_id u = op_id op" "json_wf (doc_doc u)"
    by (simp_all add: u_def upserted_doc_def)
  obtain d where d: "parse_document T (to_string S (wrapper_of u)) = Inr d"
    "add_document T d (delete_term T FieldId (op_id op) (writer e)) = Inr (writer e')"
    using eff(4) by auto
  then have "stores S T d (doc_id u) (doc_partition_key u) (doc_expires u) (doc_doc u) (doc_writetime u)"
    using laws(3) u(2) by (simp add: storage_laws_def wrapper_of_def)
  then have id: "has_term T FieldId (op_id op) d"
    using u(1) by (simp add: stores_def has_term_def)
  have pend: "pending V (writer e') =
      filter (\<lambda>y. \<not> has_term T FieldId (op_id op) y) (pending V (writer e)) @ [d]"
    using writer_add [OF laws(2) d(2)] by (simp add: writer_delete [OF laws(2)])
  have get: "hm_get (uncommitted_docs e') j = (if j = op_id op then Some u else hm_get (uncommitted_docs e) j)" for j
    using c by (simp add: eff(1) hmap.get_put cache_inv_def)
  show "covered T V e' (op_id op)"
    using id by (simp add: covered_def pend get)
  then show "covered T V e' i" if "covered T V e i"
    using that id by (cases "i = op_id op") (auto simp: covered_def pend get has_term_def)
qed

lemma process_ops_count_le:
  "process_ops S T ops p s e = (e', Inr r) \<Longrightarrow> \<exists>k \<le> length ops. skipped_count r = s + of_nat k"
proof (induction S T ops p s e rule: process_ops.induct)
  case (2 S T op ops p s e)
  obtain e1 o1 where 1: "process_op S T op e = (e1, o1)" by (cases "process_op S T op e")
  show ?case
  proof (cases o1)
    case Processed
    then obtain k where "k \<le> length ops" "skipped_count r = s + of_nat k"
      using 2 1 by auto
    then show ?thesis by (intro exI [of _ k]) simp
  next
    case Skipped
    then obtain k where "k \<le> length ops" "skipped_count r = (s + 1) + of_nat k"
      using 2 1 by auto
    then show ?thesis by (intro exI [of _ "Suc k"]) simp
  qed (use 2 1 in simp)
qed auto

lemma process_upserts_covered:
  assumes laws: "serde_wf S" "writer_laws T V" "storage_laws S T"
    and "engine_inv S T V e" "all_upserts ops" "process_ops S T ops p s e = (e', Inr r)"
    and "skipped_count r = s" "length ops < 2 ^ 32"
  shows "(op \<in> set ops \<longrightarrow> covered T V e' (op_id op)) \<and> (covered T V e i \<longrightarrow> covered T V e' i)"
  using assms(4-)
proof (induction ops arbitrary: p e i)
  case (Cons o1 ops)
  obtain e1 res where r1: "process_op S T o1 e = (e1, res)" by (cases "process_op S T o1 e")
  then have u: "do_upsert S T o1 e = (e1, res)"
    using Cons.prems(2) by (simp add: all_upserts_def process_op_def)
  have inv1: "engine_inv S T V e1"
    using engine_inv_upsert [OF laws Cons.prems(1) u] .
  have res: "res = Processed"
  proof (cases res)
    case Skipped
    then have "process_ops S T ops p (s + 1) e1 = (e', Inr r)" using Cons.prems(3) r1 by simp
    then obtain k where k: "k \<le> length ops" "s = (s + 1) + of_nat k"
      using process_ops_count_le [of S T ops p "s + 1" e1 e' r] Cons.prems(4) by auto
    then have "(of_nat (Suc k) :: u32) = 0" by (simp add: algebra_simps)
    then have "2 ^ 32 dvd Suc k" by (simp only: word_of_nat_eq_0_iff) simp
    then have "2 ^ 32 \<le> Suc k" by (rule dvd_imp_le) simp
    then show ?thesis using k Cons.prems(5) by simp
  qed (use Cons.prems(3) r1 in auto)
  then have rest: "process_ops S T ops (p + 1) s e1 = (e', Inr r)"
    using Cons.prems(3) r1 by simp
  have tail: "all_upserts ops" using Cons.prems(2) by (simp add: all_upserts_def)
  have IH: "(op \<in> set ops \<longrightarrow> covered T V e' (op_id op)) \<and> (covered T V e1 i \<longrightarrow> covered T V e' i)" for i
    by (rule Cons.IH [OF inv1 tail rest Cons.prems(4)]) (use Cons.prems(5) in simp)
  note c = do_upsert_covered [OF laws Cons.prems(1) u [unfolded res]]
  show ?case
    using IH [of i] IH [of "op_id o1"] c(1) c(2) [of i] by auto
qed simp

lemma distinct_map_filter:
  "(\<And>i. length (filter (\<lambda>x. f x = Some i) xs) \<le> 1) \<Longrightarrow> distinct (List.map_filter f xs)"
proof (induction xs)
  case (Cons x xs)
  have tail: "length (filter (\<lambda>x. f x = Some i) xs) \<le> 1" for i
    using Cons.prems [of i] by (simp split: if_splits)
  show ?case
  proof (cases "f x")
    case (Some i)
    then have "filter (\<lambda>x. f x = Some i) xs = []"
      using Cons.prems [of i] by simp
    then have "i \<notin> set (List.map_filter f xs)"
      by (auto simp: List.map_filter_def filter_empty_conv)
    then show ?thesis using Cons.IH tail Some by (simp add: List.map_filter_def)
  qed (use Cons.IH tail in \<open>simp add: List.map_filter_def\<close>)
qed (simp add: List.map_filter_def)

section \<open>Sample operations\<close>

definition sample_op :: "op_type \<Rightarrow> string \<Rightarrow> u64 \<Rightarrow> json \<Rightarrow> index_operation" where
  "sample_op t i wt payload =
     \<lparr>op_id = i, op_op_type = op_type_as_i32 t, op_writetime = wt, op_cdc_ttl = None,
      op_payload_json = print_json payload, op_collection_deltas = [], op_partition_key = None\<rparr>"

lemmas engine_eval = process_batch_def process_op_def do_upsert_def do_delete_def do_partition_delete_def
  find_cached_or_indexed_def find_indexed_def is_stale_def upserted_doc_def upserted_json_def op_key_def
  op_type_of_def op_type_try_from_def wrapper_of_def new_engine_def expires_at_of_def Let_def commit_tick_def reload_reader_def
  hm_get_def hm_put_def hm_remove_def hm_retain_def bt_inv_Cons bt_get_Cons bt_entry_or_def
  doc_of_stored_def first_of_def first_elem_def i64_max_int_def sample_op_def

lemma ref_fresh: "fresh_index ref_view ref_empty"
  by (simp add: fresh_index_def ref_eval)

abbreviation (input) ref_engine :: "ref_index engine" where
  "ref_engine \<equiv> new_engine ref_empty"

lemma ref_engine_inv: "engine_inv ref_serde ref_tantivy ref_view ref_engine"
  using engine_inv_reach [OF engine_reach.start [of ref_serde ref_tantivy] ref_fresh ref_serde_wf ref_writer_laws
      ref_storage_laws] .

lemma ref_batch_inv:
  "engine_inv ref_serde ref_tantivy ref_view e \<Longrightarrow>
   engine_inv ref_serde ref_tantivy ref_view (fst (process_batch ref_serde ref_tantivy ops e))"
  using engine_inv_batch [of ref_serde ref_tantivy ref_view e ops] by (simp add: ref_laws prod_eq_iff)

section \<open>Properties\<close>



text \<open>A batch that returns a response counted every operation once: processed and skipped sum to
  the number of operations (in \<open>u32\<close>), and the response says success.\<close>

theorem batch_counts:
  assumes "process_batch S T ops e = (e', Inr r)"
  shows "processed_count r + skipped_count r = of_nat (length ops) \<and> success r"
  using assms process_ops_counts [of S T ops 0 0 e e' r] by (simp add: process_batch_def split: if_splits)

theorem batch_counts_witness:
  "let r = snd (process_batch ref_serde ref_tantivy
       [sample_op OpUpsert ''p'' 5 (JObject []), sample_op OpUnspecified ''q'' 5 JNull] ref_engine)
   in r = Inr \<lparr>processed_count = 1, skipped_count = 1, success = True\<rparr> \<and>
      (1 :: u32) + 1 = of_nat (length [sample_op OpUpsert ''p'' 5 (JObject []), sample_op OpUnspecified ''q'' 5 JNull])"
proof -
  let ?ops = "[sample_op OpUpsert ''p'' 5 (JObject []), sample_op OpUnspecified ''q'' 5 JNull]"
  have run: "snd (process_batch ref_serde ref_tantivy ?ops ref_engine) =
      Inr \<lparr>processed_count = 1, skipped_count = 1, success = True\<rparr>"
    by (simp add: engine_eval ref_eval)
  have "process_batch ref_serde ref_tantivy ?ops ref_engine =
      (fst (process_batch ref_serde ref_tantivy ?ops ref_engine), Inr \<lparr>processed_count = 1, skipped_count = 1, success = True\<rparr>)"
    using run by (simp add: prod_eq_iff)
  from batch_counts [OF this] run show ?thesis by simp
qed

text \<open>A batch of upserts acts on what lookups find exactly as the last-writer-wins map: each
  operation, in order, is ignored where its id already holds a document at least as new, and
  otherwise puts the merged document there; no other id changes.\<close>

theorem upsert_batch_refines_map:
  assumes "serde_wf S" "writer_laws T V" "storage_laws S T" "reader_laws T V"
    and "engine_inv S T V e" "all_upserts ops" "process_batch S T ops e = (e', Inr r)"
  shows "find_cached_or_indexed S T e' =
    fold (spec_upsert S (current_generation e)) ops (find_cached_or_indexed S T e)"
  using assms process_upserts_induct [of S T V e ops 0 0 e' r]
  by (simp add: process_batch_def split: if_splits)

text \<open>After a batch of upserts every id holds the greatest of the write times it had and was
  sent, whatever the order of the operations in the batch.\<close>

theorem newest_write_wins:
  assumes "serde_wf S" "writer_laws T V" "storage_laws S T" "reader_laws T V"
    and "engine_inv S T V e" "all_upserts ops" "process_batch S T ops e = (e', Inr r)"
    and "\<exists>op \<in> set ops. op_id op = i"
  shows "map_option doc_writetime (find_cached_or_indexed S T e' i) =
    Some (Max (set_option (map_option doc_writetime (find_cached_or_indexed S T e i)) \<union>
               op_writetime ` {op \<in> set ops. op_id op = i}))"
proof -
  have "map_option doc_writetime (find_cached_or_indexed S T e' i) =
      newest (map_option doc_writetime (find_cached_or_indexed S T e i)) (map op_writetime (filter (\<lambda>op. op_id op = i) ops))"
    using process_upserts_induct [OF assms(1-4), of e ops 0 0 e' r] assms(5-7)
    by (simp add: process_batch_def spec_upserts_writetime split: if_splits)
  moreover have "filter (\<lambda>op. op_id op = i) ops \<noteq> []"
    using assms(8) by (auto simp: filter_empty_conv)
  ultimately show ?thesis by (simp add: newest_max)
qed

text \<open>A replayed batch of upserts is a no-op: sent again right after it was answered, every
  operation is skipped and the engine does not change.\<close>

theorem replay_is_noop:
  assumes "serde_wf S" "writer_laws T V" "storage_laws S T" "reader_laws T V"
    and "engine_inv S T V e" "all_upserts ops" "process_batch S T ops e = (e', Inr r)"
  shows "process_batch S T ops e' =
    (e', Inr \<lparr>processed_count = 0, skipped_count = of_nat (length ops), success = True\<rparr>)"
proof -
  have run: "process_ops S T ops 0 0 e = (e', Inr r)" "\<not> poisoned e"
    using assms(7) by (auto simp: process_batch_def split: if_splits)
  have "\<not> poisoned e'"
    using process_batch_invariant [of ops "\<lambda>e. \<not> poisoned e" S T e e' "Inr r"] run assms(7) process_op_gen
    by blast
  moreover have "is_stale (find_cached_or_indexed S T e' (op_id op)) op" if "op \<in> set ops" for op
    using process_upserts_induct [OF assms(1-6) run(1)] spec_upserts_stale [OF that] by simp
  ultimately show ?thesis
    using process_ops_all_stale [OF assms(6), of S T e' 0 0] by (simp add: process_batch_def)
qed

definition sample_ops :: "index_operation list" where
  "sample_ops =
     [sample_op OpUpsert ''p'' 5 (JObject [(''a'', JBool True)]),
      sample_op OpUpsert ''q'' 7 (JObject []),
      sample_op OpUpsert ''p'' 3 (JObject [(''a'', JBool False)])]"

definition sample_engine :: "ref_index engine" where
  "sample_engine = fst (process_batch ref_serde ref_tantivy sample_ops ref_engine)"

lemma sample_run:
  "process_batch ref_serde ref_tantivy sample_ops ref_engine =
     (sample_engine, Inr \<lparr>processed_count = 2, skipped_count = 1, success = True\<rparr>)"
  by (simp add: sample_engine_def sample_ops_def engine_eval ref_eval prod_eq_iff)

lemma sample_all_upserts: "all_upserts sample_ops"
  by (simp add: all_upserts_def sample_ops_def op_type_of_def sample_op_def op_type_try_from_def)

lemmas sample_facts = ref_serde_wf ref_writer_laws ref_storage_laws ref_reader_laws ref_engine_inv
  sample_all_upserts sample_run

theorem upsert_batch_refines_map_witness:
  "find_cached_or_indexed ref_serde ref_tantivy sample_engine =
     fold (spec_upsert ref_serde 0) sample_ops (find_cached_or_indexed ref_serde ref_tantivy ref_engine)"
  using upsert_batch_refines_map [OF sample_facts] by (simp add: new_engine_def)

theorem newest_write_wins_witness:
  "map_option doc_writetime (find_cached_or_indexed ref_serde ref_tantivy sample_engine ''p'') = Some 5"
proof -
  have "{op \<in> set sample_ops. op_id op = ''p''} =
      {sample_op OpUpsert ''p'' 5 (JObject [(''a'', JBool True)]), sample_op OpUpsert ''p'' 3 (JObject [(''a'', JBool False)])}"
    by (auto simp: sample_ops_def sample_op_def)
  moreover have "find_cached_or_indexed ref_serde ref_tantivy ref_engine ''p'' = None"
    by (simp add: engine_eval ref_eval)
  moreover have p: "\<exists>op \<in> set sample_ops. op_id op = ''p''"
    by (simp add: sample_ops_def sample_op_def)
  ultimately show ?thesis
    using newest_write_wins [OF sample_facts p] by (simp add: sample_op_def max_def)
qed

theorem replay_is_noop_witness:
  "process_batch ref_serde ref_tantivy sample_ops sample_engine =
     (sample_engine, Inr \<lparr>processed_count = 0, skipped_count = 3, success = True\<rparr>)"
  using replay_is_noop [OF sample_facts] by (simp add: sample_ops_def)

text \<open>C15: Replay across a commit: once a batch of upserts was answered with no operation skipped, and
  the index has committed and the reader has reloaded, sending the batch again skips every operation
  and changes nothing.\<close>

theorem replay_after_commit_is_noop:
  assumes "serde_wf S" "writer_laws T V" "storage_laws S T" "reader_laws T V"
    and "engine_inv S T V e" "all_upserts ops" "process_batch S T ops e = (e', Inr r)"
    and "skipped_count r = 0" "length ops < 2 ^ 32" "commit_ok T (writer e')"
  defines "e'' \<equiv> reload_reader T (commit_tick T False e')"
  shows "process_batch S T ops e'' =
    (e'', Inr \<lparr>processed_count = 0, skipped_count = of_nat (length ops), success = True\<rparr>)"
proof -
  have run: "process_ops S T ops 0 0 e = (e', Inr r)" "\<not> poisoned e"
    using assms(7) by (auto simp: process_batch_def split: if_splits)
  have inv: "engine_inv S T V e'" by (rule engine_inv_batch [OF assms(1-3,5,7)])
  have np: "\<not> poisoned e'"
    using process_batch_invariant [of ops "\<lambda>e. \<not> poisoned e" S T e e' "Inr r"] run assms(7) process_op_gen
    by blast
  have stale: "is_stale (find_cached_or_indexed S T e'' (op_id op)) op" if op: "op \<in> set ops" for op
  proof -
    have "covered T V e' (op_id op)"
      using process_upserts_covered [OF assms(1-3,5,6) run(1) assms(8,9)] op by blast
    then obtain d x where d: "hm_get (uncommitted_docs e') (op_id op) = Some d"
      "x \<in> set (pending V (writer e'))" "has_term T FieldId (op_id op) x"
      by (auto simp: covered_def)
    have "find_cached_or_indexed S T e' (op_id op) = Some d"
      by (simp add: find_cached_or_indexed_def d)
    moreover have "is_stale (find_cached_or_indexed S T e' (op_id op)) op"
      using process_upserts_induct [OF assms(1-6) run(1)] spec_upserts_stale [OF op] by simp
    ultimately have "op_writetime op \<le> doc_writetime d"
      by (simp add: is_stale_iff)
    then show ?thesis
      using find_cached_after_publish [OF assms(2,4) inv assms(10) np d]
      by (simp add: is_stale_iff e''_def)
  qed
  have "\<not> poisoned e''"
    using commit_tick_ok(5) [OF assms(2) _ assms(10) np, of S] inv
    by (simp add: e''_def reload_reader_def engine_inv_def)
  then show ?thesis
    using process_ops_all_stale [OF assms(6) stale, of 0 0] by (simp add: process_batch_def)
qed

definition sample_pair :: "index_operation list" where
  "sample_pair = [sample_op OpUpsert ''p'' 5 (JObject []), sample_op OpUpsert ''q'' 7 (JObject [])]"

theorem replay_after_commit_is_noop_witness:
  "let e = fst (process_batch ref_serde ref_tantivy sample_pair ref_engine);
       e' = reload_reader ref_tantivy (commit_tick ref_tantivy False e)
   in process_batch ref_serde ref_tantivy sample_pair e' =
     (e', Inr \<lparr>processed_count = 0, skipped_count = 2, success = True\<rparr>)"
proof -
  have run: "process_batch ref_serde ref_tantivy sample_pair ref_engine =
      (fst (process_batch ref_serde ref_tantivy sample_pair ref_engine),
       Inr \<lparr>processed_count = 2, skipped_count = 0, success = True\<rparr>)"
    by (simp add: sample_pair_def engine_eval ref_eval prod_eq_iff)
  have all: "all_upserts sample_pair"
    by (simp add: all_upserts_def sample_pair_def op_type_of_def sample_op_def op_type_try_from_def)
  have ok: "commit_ok ref_tantivy w" for w
    by (simp add: commit_ok_def ref_eval)
  show ?thesis
    using replay_after_commit_is_noop [OF ref_serde_wf ref_writer_laws ref_storage_laws ref_reader_laws
        ref_engine_inv all run _ _ ok]
    by (simp add: Let_def) (simp add: sample_pair_def)
qed

text \<open>Read your writes: a document just written is what a lookup finds before the commit, and
  after the commit and a reload the lookup finds it with the same id, partition key, expiry and write
  time, and the body in the form the index stores.\<close>

theorem processed_upsert_is_found:
  assumes "serde_wf S" "writer_laws T V" "storage_laws S T" "reader_laws T V"
    and "engine_inv S T V e" "\<not> poisoned e" "do_upsert S T op e = (e', Processed)" "commit_ok T (writer e')"
  defines "d \<equiv> upserted_doc S (find_cached_or_indexed S T e (op_id op)) (current_generation e) op"
  shows "find_cached_or_indexed S T e' (op_id op) = Some d \<and>
    find_cached_or_indexed S T (reload_reader T (commit_tick T False e')) (op_id op) =
      Some (d\<lparr>doc_doc := stored_form T (doc_doc d), doc_generation := 0\<rparr>)"
proof -
  have fresh: "\<not> is_stale (find_cached_or_indexed S T e (op_id op)) op"
    using assms(7) by (auto simp: do_upsert_def Let_def split: if_splits)
  have inv: "engine_inv S T V e'" by (rule engine_inv_upsert [OF assms(1-3,5,7)])
  have np: "\<not> poisoned e'"
    using do_upsert_fresh(3) [OF fresh assms(7)] assms(6) by simp
  have hm: "hm_inv (uncommitted_docs e)" using assms(5) by (simp add: inv_defs)
  have get: "hm_get (uncommitted_docs e') (op_id op) = Some d"
    by (simp add: do_upsert_fresh(1) [OF fresh assms(7)] hmap.get_put hm d_def)
  obtain x where x: "x \<in> set (pending V (writer e'))" "has_term T FieldId (op_id op) x"
    using do_upsert_covered(1) [OF assms(1-3,5,7)] by (auto simp: covered_def)
  show ?thesis
    using find_cached_after_publish [OF assms(2,4) inv assms(8) np get x]
    by (simp add: find_cached_or_indexed_def [of S T e'] get)
qed

theorem processed_upsert_is_found_witness:
  "let op = sample_op OpUpsert ''p'' 5 (JObject [(''a'', JBool True)]);
       e' = fst (do_upsert ref_serde ref_tantivy op ref_engine);
       d = upserted_doc ref_serde None 0 op
   in find_cached_or_indexed ref_serde ref_tantivy e' ''p'' = Some d \<and>
      find_cached_or_indexed ref_serde ref_tantivy (reload_reader ref_tantivy (commit_tick ref_tantivy False e')) ''p'' =
        Some d"
proof -
  let ?op = "sample_op OpUpsert ''p'' 5 (JObject [(''a'', JBool True)])"
  have run: "do_upsert ref_serde ref_tantivy ?op ref_engine = (fst (do_upsert ref_serde ref_tantivy ?op ref_engine), Processed)"
    by (simp add: engine_eval ref_eval prod_eq_iff)
  have np: "\<not> poisoned ref_engine" by (simp add: new_engine_def)
  have ok: "commit_ok ref_tantivy w" for w
    by (simp add: commit_ok_def ref_eval)
  have none: "find_cached_or_indexed ref_serde ref_tantivy ref_engine ''p'' = None"
    by (simp add: engine_eval ref_eval)
  have eqs: "op_id ?op = ''p''" "stored_form ref_tantivy = id" "current_generation ref_engine = 0"
    "doc_generation (upserted_doc ref_serde None 0 ?op) = 0"
    by (simp_all add: sample_op_def ref_tantivy_def new_engine_def upserted_doc_def)
  have "d\<lparr>doc_doc := doc_doc d, doc_generation := 0\<rparr> = d" if "doc_generation d = 0" for d :: doc
    using that by simp
  then show ?thesis
    using processed_upsert_is_found [OF ref_serde_wf ref_writer_laws ref_storage_laws ref_reader_laws
        ref_engine_inv np run ok, unfolded eqs none]
    by (simp add: Let_def eqs(4))
qed

text \<open>A write that is not newer than the document its id holds is skipped without a trace, whether
  it is an upsert or a delete; equal write times count as stale.\<close>

theorem stale_write_is_ignored:
  assumes "find_cached_or_indexed S T e (op_id op) = Some d" "op_writetime op \<le> doc_writetime d"
    and "op_type_of op = OpUpsert \<or> op_type_of op = OpDelete"
  shows "process_op S T op e = (e, Skipped)"
  using assms by (auto simp: process_op_def do_upsert_def do_delete_def is_stale_iff)

theorem stale_write_is_ignored_witness:
  "process_op ref_serde ref_tantivy (sample_op OpDelete ''p'' 5 JNull) sample_engine = (sample_engine, Skipped)"
proof -
  have "\<exists>d. find_cached_or_indexed ref_serde ref_tantivy sample_engine ''p'' = Some d \<and> 5 \<le> doc_writetime d"
    by (simp add: sample_engine_def sample_ops_def engine_eval ref_eval)
  then obtain d where "find_cached_or_indexed ref_serde ref_tantivy sample_engine ''p'' = Some d" "5 \<le> doc_writetime d"
    by blast
  then show ?thesis
    by (intro stale_write_is_ignored [of _ _ _ _ d])
      (simp_all add: sample_op_def op_type_of_def op_type_try_from_def)
qed

text \<open>A delete newer than the document its id holds removes it: the writer and the cache hold
  nothing of that id any more, every other id's cached document and pending documents stay, and
  after the commit and a reload no lookup finds the id.\<close>

theorem delete_removes:
  assumes "serde_wf S" "writer_laws T V" "reader_laws T V" "engine_inv S T V e" "\<not> poisoned e"
    and "op_type_of op = OpDelete" "\<not> is_stale (find_cached_or_indexed S T e (op_id op)) op"
    and "process_op S T op e = (e', r)" "commit_ok T (writer e')"
  shows "r = Processed \<and>
    pending V (writer e') = filter (\<lambda>x. \<not> has_term T FieldId (op_id op) x) (pending V (writer e)) \<and>
    (\<forall>i. hm_get (uncommitted_docs e') i = (if i = op_id op then None else hm_get (uncommitted_docs e) i)) \<and>
    find_cached_or_indexed S T (reload_reader T (commit_tick T False e')) (op_id op) = None"
proof -
  have run: "do_delete S T op e = (e', r)" using assms(6,8) by (simp add: process_op_def)
  have e': "e' = e\<lparr>writer := delete_term T FieldId (op_id op) (writer e),
      uncommitted_docs := hm_remove (op_id op) (uncommitted_docs e)\<rparr>" "r = Processed"
    using run assms(7) by (simp_all add: do_delete_def)
  have inv: "engine_inv S T V e'" by (rule engine_inv_delete [OF assms(2,4) run])
  have hm: "hm_inv (uncommitted_docs e)" using assms(4) by (simp add: inv_defs)
  have np: "\<not> poisoned e'" using assms(5) by (simp add: e')
  have pend: "pending V (writer e') = filter (\<lambda>x. \<not> has_term T FieldId (op_id op) x) (pending V (writer e))"
    by (simp add: e' writer_delete [OF assms(2)])
  then have "filter (has_term T FieldId (op_id op)) (pending V (writer e')) = []"
    by (simp add: filter_empty_conv)
  then have "find_cached_or_indexed S T (reload_reader T (commit_tick T False e')) (op_id op) = None"
    using find_after_publish [OF assms(2,3) inv assms(9) np, of "op_id op"] by simp
  with pend show ?thesis by (simp add: e' hmap.get_remove hm)
qed

theorem delete_removes_witness:
  "let e = fst (process_op ref_serde ref_tantivy (sample_op OpDelete ''p'' 9 JNull) sample_engine)
   in find_cached_or_indexed ref_serde ref_tantivy
        (reload_reader ref_tantivy (commit_tick ref_tantivy False e)) ''p'' = None"
proof -
  let ?op = "sample_op OpDelete ''p'' 9 JNull"
  have inv: "engine_inv ref_serde ref_tantivy ref_view sample_engine"
    unfolding sample_engine_def by (rule ref_batch_inv) (rule ref_engine_inv)
  have np: "\<not> poisoned sample_engine" and ty: "op_type_of ?op = OpDelete" and oid: "op_id ?op = ''p''"
    and fresh: "\<not> is_stale (find_cached_or_indexed ref_serde ref_tantivy sample_engine (op_id ?op)) ?op"
    by (simp_all add: sample_engine_def sample_ops_def engine_eval ref_eval)
  have ok: "commit_ok ref_tantivy w" for w
    by (simp add: commit_ok_def ref_eval)
  show ?thesis
    using delete_removes [OF ref_serde_wf ref_writer_laws ref_reader_laws inv np ty fresh prod.collapse [symmetric] ok]
    by (simp add: Let_def oid)
qed

text \<open>A partition delete removes exactly the documents of its partition, from the writer and from
  the cache, whatever their write times, and leaves every other document alone.\<close>

theorem partition_delete_exact:
  assumes "writer_laws T V" "hm_inv (uncommitted_docs e)" "op_type_of op = OpPartitionDelete"
    and "process_op S T op e = (e', r)"
  shows "r = Processed \<and>
    pending V (writer e') = filter (\<lambda>x. \<not> has_term T FieldPartitionKey (op_key op) x) (pending V (writer e)) \<and>
    (\<forall>i d. hm_get (uncommitted_docs e') i = Some d \<longleftrightarrow>
       hm_get (uncommitted_docs e) i = Some d \<and> doc_partition_key d \<noteq> op_key op)"
proof -
  have e': "e' = e\<lparr>writer := delete_term T FieldPartitionKey (op_key op) (writer e),
      uncommitted_docs := hm_retain (\<lambda>_ d. doc_partition_key d \<noteq> op_key op) (uncommitted_docs e)\<rparr>" "r = Processed"
    using assms(3,4) by (simp_all add: process_op_def do_partition_delete_def Let_def)
  then show ?thesis
    by (simp add: writer_delete [OF assms(1)] hmap.get_retain_Some assms(2))
qed

theorem partition_delete_exact_witness:
  "pending ref_view (writer (fst (process_op ref_serde ref_tantivy (sample_op OpPartitionDelete ''p'' 0 JNull) sample_engine)))
     = filter (\<lambda>x. \<not> has_term ref_tantivy FieldPartitionKey ''p'' x) (pending ref_view (writer sample_engine))"
proof -
  let ?op = "sample_op OpPartitionDelete ''p'' 0 JNull"
  have hm: "hm_inv (uncommitted_docs sample_engine)"
    using ref_batch_inv [OF ref_engine_inv, of sample_ops] by (simp add: inv_defs sample_engine_def)
  have "op_type_of ?op = OpPartitionDelete" "op_key ?op = ''p''"
    by (simp_all add: sample_op_def op_type_of_def op_type_try_from_def op_key_def)
  then show ?thesis
    using partition_delete_exact [OF ref_writer_laws hm _ prod.collapse [symmetric], of ?op ref_serde] by simp
qed

text \<open>C30: The expiry time of an upsert is exact wherever it fits a signed 64-bit field: the write time
  plus a non-negative number of seconds in microseconds, capped at the greatest \<open>i64\<close>; without a
  TTL it is that greatest value. No step wraps around.\<close>

theorem expires_at_exact:
  "sint (doc_expires (upserted_doc S existing g op)) =
     (case op_cdc_ttl op of
        None \<Rightarrow> i64_max_int
      | Some ttl \<Rightarrow> min i64_max_int (uint (op_writetime op) + max 0 (sint ttl * 1000000)))"
  by (simp add: upserted_doc_def expires_at_sint)

text \<open>A prune round removes from the index exactly the documents whose expiry time is at or before
  its clock, commits the rest, and does not touch the cache.\<close>

theorem prune_removes_expired:
  assumes "writer_laws T V" "prune_ok T now (writer e)" "\<not> poisoned e"
  shows "pending V (writer (prune_tick T False now e)) = filter (\<lambda>d. \<not> expired_by T now d) (pending V (writer e)) \<and>
    committed V (writer (prune_tick T False now e)) = filter (\<lambda>d. \<not> expired_by T now d) (pending V (writer e)) \<and>
    uncommitted_docs (prune_tick T False now e) = uncommitted_docs e"
  using prune_tick_ok [OF assms] by simp

theorem prune_removes_expired_witness:
  "committed ref_view (writer (prune_tick ref_tantivy False 10 sample_engine)) =
     filter (\<lambda>d. \<not> expired_by ref_tantivy 10 d) (pending ref_view (writer sample_engine))"
proof -
  have "prune_ok ref_tantivy 10 (writer sample_engine)"
    by (simp add: prune_ok_def commit_ok_def ref_eval)
  moreover have "\<not> poisoned sample_engine"
    by (simp add: sample_engine_def sample_ops_def engine_eval ref_eval)
  ultimately show ?thesis using prune_removes_expired [OF ref_writer_laws] by blast
qed

text \<open>The partition listing returns, each once, the ids cached under that partition key and the
  ids of the documents the reader shows under it.\<close>

theorem listing_exact:
  assumes "reader_laws T V" "engine_inv S T V e"
  shows "set (list_document_ids_by_partition_key T e pk) =
      {i. \<exists>d. hm_get (uncommitted_docs e) i = Some d \<and> doc_partition_key d = pk} \<union>
      {i. \<exists>x \<in> set (visible V (writer e)). has_term T FieldPartitionKey pk x \<and> has_term T FieldId i x} \<and>
    distinct (list_document_ids_by_partition_key T e pk)"
proof -
  let ?cache = "map fst (filter (\<lambda>en. doc_partition_key (snd en) = pk) (uncommitted_docs e))"
  obtain addrs ds where r: "term_search T (writer e) FieldPartitionKey pk = Inr addrs"
    "map (fetch_doc T (writer e)) addrs = map Inr ds"
    "mset ds = mset (filter (has_term T FieldPartitionKey pk) (visible V (writer e)))"
    using assms(1) by (rule reader_search)
  let ?ids = "List.map_filter (\<lambda>x. doc_str T x FieldId) ds"
  have "List.map_filter (\<lambda>addr. case fetch_doc T (writer e) addr of Inl _ \<Rightarrow> None | Inr d \<Rightarrow> doc_str T d FieldId) addrs
      = List.map_filter (\<lambda>y. case y of Inl _ \<Rightarrow> None | Inr d \<Rightarrow> doc_str T d FieldId) (map (fetch_doc T (writer e)) addrs)"
    by (simp add: List.map_filter_def filter_map comp_def)
  also have "\<dots> = ?ids"
    by (simp add: r(2) List.map_filter_def filter_map comp_def)
  finally have listing: "list_document_ids_by_partition_key T e pk = ?cache @ filter (\<lambda>i. i \<notin> set ?cache) ?ids"
    by (simp add: list_document_ids_by_partition_key_def Let_def r(1))
  have sound: "sound_docs S T (visible V (writer e))" and hm: "hm_inv (uncommitted_docs e)"
    using assms(2) by (simp_all add: inv_defs)
  have "set ?ids = {i. \<exists>x \<in> set (visible V (writer e)). has_term T FieldPartitionKey pk x \<and> has_term T FieldId i x}"
    using mset_eq_setD [OF r(3)] by (force simp: List.map_filter_def has_term_def)
  moreover have "set ?cache = {i. \<exists>d. hm_get (uncommitted_docs e) i = Some d \<and> doc_partition_key d = pk}"
    by (force simp: hm_get_mem hm)
  moreover have "distinct ?cache"
    using hm by (simp add: hm_inv_def distinct_map_filter_fst)
  moreover have "distinct ?ids"
  proof (rule distinct_map_filter)
    fix i
    have "length (filter (\<lambda>x. doc_str T x FieldId = Some i) ds) =
        size (filter_mset (has_term T FieldId i) (mset ds))"
      by (simp add: has_term_def [abs_def] flip: size_mset mset_filter)
    also have "\<dots> = length (filter (has_term T FieldId i) (filter (has_term T FieldPartitionKey pk) (visible V (writer e))))"
      by (simp only: r(3) flip: size_mset mset_filter)
    also have "\<dots> \<le> 1"
      using sound length_filter_filter unfolding sound_docs_def by blast
    finally show "length (filter (\<lambda>x. doc_str T x FieldId = Some i) ds) \<le> 1" .
  qed
  ultimately show ?thesis by (auto simp: listing)
qed

theorem listing_exact_witness:
  "set (list_document_ids_by_partition_key ref_tantivy sample_engine ''q'') = {''q''}"
proof -
  have inv: "engine_inv ref_serde ref_tantivy ref_view sample_engine"
    unfolding sample_engine_def by (rule ref_batch_inv) (rule ref_engine_inv)
  have "visible ref_view (writer sample_engine) = []"
    by (simp add: sample_engine_def sample_ops_def engine_eval ref_eval)
  moreover have "{i. \<exists>d. hm_get (uncommitted_docs sample_engine) i = Some d \<and> doc_partition_key d = ''q''} = {''q''}"
    by (auto simp: sample_engine_def sample_ops_def engine_eval ref_eval split: if_splits)
  ultimately show ?thesis
    using listing_exact [OF ref_reader_laws inv, of "''q''"] by simp
qed

text \<open>C32: A delete leaves no tombstone: until the next commit and reload, an upsert that follows it
  and is newer than what the reader still shows for the id merges its payload into that deleted
  document instead of starting from an empty one.\<close>

theorem upsert_after_delete_merges_deleted:
  assumes "writer_laws T V" "reader_laws T V" "engine_inv S T V e"
    and "do_delete S T del e = (e1, Processed)" "op_id ups = op_id del"
    and "find_indexed S T (writer e) (op_id del) = Some old" "doc_writetime old < op_writetime ups"
    and "do_upsert S T ups e1 = (e2, r)"
  shows "find_cached_or_indexed S T e2 (op_id del) = Some (upserted_doc S (Some old) (current_generation e) ups)"
proof -
  have hm: "hm_inv (uncommitted_docs e)" and sound: "sound_docs S T (visible V (writer e))"
    using assms(3) by (simp_all add: inv_defs)
  have e1: "e1 = e\<lparr>writer := delete_term T FieldId (op_id del) (writer e),
      uncommitted_docs := hm_remove (op_id del) (uncommitted_docs e)\<rparr>"
    using assms(4) by (auto simp: do_delete_def split: if_splits)
  have "find_indexed S T (writer e1) (op_id del) = find_indexed S T (writer e) (op_id del)"
    using find_indexed_visible [OF assms(2), of S "writer e" "op_id del"]
      find_indexed_visible [OF assms(2), of S "writer e1" "op_id del"] sound
    by (simp add: e1 writer_delete [OF assms(1)])
  then have old: "find_cached_or_indexed S T e1 (op_id ups) = Some old"
    using assms(5,6) by (simp add: find_cached_or_indexed_def e1 hmap.get_remove hm)
  have inv1: "engine_inv S T V e1" by (rule engine_inv_delete [OF assms(1,3,4)])
  have "\<not> is_stale (Some old) ups"
    using assms(7) by (simp add: is_stale_def not_le)
  then show ?thesis
    using upsert_refines [OF assms(1,2) inv1 assms(8)] old assms(5)
    by (simp add: spec_upsert_def e1)
qed

text \<open>The reader shows \<open>{a: true}\<close> under \<open>p\<close>; the batch deletes \<open>p\<close> and then writes \<open>{b: true}\<close>; the
  document that results holds both members.\<close>

definition published_engine :: "ref_index engine" where
  "published_engine = reload_reader ref_tantivy (commit_tick ref_tantivy False sample_engine)"

theorem upsert_after_delete_merges_deleted_witness:
  "let e1 = fst (do_delete ref_serde ref_tantivy (sample_op OpDelete ''p'' 8 JNull) published_engine);
       e2 = fst (do_upsert ref_serde ref_tantivy (sample_op OpUpsert ''p'' 9 (JObject [(''b'', JBool True)])) e1)
   in map_option doc_doc (find_cached_or_indexed ref_serde ref_tantivy e2 ''p'') =
     Some (JObject [(''a'', JBool True), (''b'', JBool True)])"
proof -
  let ?del = "sample_op OpDelete ''p'' 8 JNull"
  let ?ups = "sample_op OpUpsert ''p'' 9 (JObject [(''b'', JBool True)])"
  have inv: "engine_inv ref_serde ref_tantivy ref_view published_engine"
    unfolding published_engine_def sample_engine_def
    by (intro engine_inv_reload engine_inv_commit ref_batch_inv ref_engine_inv ref_writer_laws)
      (simp add: commit_ok_def ref_eval)
  have old: "find_indexed ref_serde ref_tantivy (writer published_engine) ''p'' =
      Some \<lparr>doc_id = ''p'', doc_partition_key = ''p'', doc_doc = JObject [(''a'', JBool True)],
        doc_expires = i64_max, doc_writetime = 5, doc_generation = 0\<rparr>" (is "_ = Some ?old")
    by (simp add: published_engine_def sample_engine_def sample_ops_def engine_eval ref_eval)
  have "do_delete ref_serde ref_tantivy ?del published_engine =
      (fst (do_delete ref_serde ref_tantivy ?del published_engine), Processed)"
    by (simp add: published_engine_def sample_engine_def sample_ops_def engine_eval ref_eval)
  from upsert_after_delete_merges_deleted [OF ref_writer_laws ref_reader_laws inv this _ _ _ prod.collapse [symmetric],
      of ?ups ?old] old
  show ?thesis
    by (simp add: Let_def sample_op_def upserted_doc_def upserted_json_def ref_eval bt_entry_or_def bt_inv_Cons
      bt_get_Cons)
qed

text \<open>C33: An upsert whose \<open>add_document\<close> fails is acknowledged on retry although it is nowhere in the
  index: the failed attempt has already removed the old document and cached the new one, so the same
  operation sent again looks stale and is counted as skipped.\<close>

theorem failed_upsert_is_skipped_on_retry:
  assumes "writer_laws T V" "hm_inv (uncommitted_docs e)" "do_upsert S T op e = (e1, Failed err)"
  shows "do_upsert S T op e1 = (e1, Skipped) \<and>
    filter (has_term T FieldId (op_id op)) (pending V (writer e1)) = []"
proof -
  have fresh: "\<not> is_stale (find_cached_or_indexed S T e (op_id op)) op"
    using assms(3) by (auto simp: do_upsert_def Let_def split: if_splits)
  note eff = do_upsert_fresh [OF fresh assms(3)]
  have "writer e1 = delete_term T FieldId (op_id op) (writer e)" using eff(4) by auto
  then have "filter (has_term T FieldId (op_id op)) (pending V (writer e1)) = []"
    by (simp add: writer_delete [OF assms(1)] filter_empty_conv)
  moreover have "is_stale (find_cached_or_indexed S T e1 (op_id op)) op"
    by (simp add: find_cached_or_indexed_def [of S T e1] eff(1) hmap.get_put assms(2) is_stale_def upserted_doc_def)
  ultimately show ?thesis by (simp add: do_upsert_stale)
qed

definition full_disk :: "(ref_index, json, json) tantivy" where
  "full_disk = ref_tantivy\<lparr>add_document := (\<lambda>d w. Inl ''disk full'')\<rparr>"

theorem failed_upsert_is_skipped_on_retry_witness:
  "let op = sample_op OpUpsert ''p'' 5 (JObject []);
       e1 = fst (do_upsert ref_serde full_disk op ref_engine)
   in snd (do_upsert ref_serde full_disk op ref_engine) = Failed ''disk full'' \<and>
      do_upsert ref_serde full_disk op e1 = (e1, Skipped) \<and> pending ref_view (writer e1) = []"
proof -
  let ?op = "sample_op OpUpsert ''p'' 5 (JObject [])"
  have laws: "writer_laws full_disk ref_view"
    using ref_writer_laws by (simp add: writer_laws_def full_disk_def has_term_def expired_by_def)
  have ops: "term_search full_disk = term_search ref_tantivy" "parse_document full_disk = parse_document ref_tantivy"
    "delete_term full_disk = delete_term ref_tantivy" "add_document full_disk = (\<lambda>d w. Inl ''disk full'')"
    by (simp_all add: full_disk_def)
  have run: "snd (do_upsert ref_serde full_disk ?op ref_engine) = Failed ''disk full''"
    by (simp add: engine_eval ref_eval ops)
  then have "do_upsert ref_serde full_disk ?op ref_engine =
      (fst (do_upsert ref_serde full_disk ?op ref_engine), Failed ''disk full'')"
    by (simp add: prod_eq_iff)
  moreover have "hm_inv (uncommitted_docs ref_engine)" by (simp add: new_engine_def)
  ultimately have "do_upsert ref_serde full_disk ?op (fst (do_upsert ref_serde full_disk ?op ref_engine)) =
      (fst (do_upsert ref_serde full_disk ?op ref_engine), Skipped)"
    using failed_upsert_is_skipped_on_retry [OF laws] by blast
  moreover have "pending ref_view (writer (fst (do_upsert ref_serde full_disk ?op ref_engine))) = []"
    by (simp add: engine_eval ref_eval ops)
  ultimately show ?thesis using run by (simp add: Let_def)
qed



end
