(* ===== verification/Engine_Spec.thy ===== *)
theory Engine_Spec
  imports Engine_Props
begin

text \<open>
  The engine as four maps from ids to documents: what the cache holds, what the next commit publishes, what
  the last commit published and what the reader shows. \<open>store_op\<close> says what an operation does to them,
  \<open>store_batch\<close> what a batch does; \<open>store_of\<close> abstracts an engine. The lemmas show that every operation,
  lookup and background round of the engine is the store's.
\<close>

section \<open>The store\<close>

record store =
  cached :: "string \<Rightarrow> doc option"
  next_docs :: "string \<Rightarrow> doc option"
  last_docs :: "string \<Rightarrow> doc option"
  shown :: "string \<Rightarrow> doc option"
  generation :: u64

definition found :: "store \<Rightarrow> string \<Rightarrow> doc option" where
  "found st i = (case cached st i of Some d \<Rightarrow> Some d | None \<Rightarrow> shown st i)"

definition outdated :: "store \<Rightarrow> index_operation \<Rightarrow> bool" where
  "outdated st op = (\<exists>d. found st (op_id op) = Some d \<and> op_writetime op \<le> doc_writetime d)"

text \<open>A document as the index gives it back.\<close>

definition as_read :: "('w, 'a, 'd) tantivy \<Rightarrow> doc \<Rightarrow> doc" where
  "as_read T d = d\<lparr>doc_doc := stored_form T (doc_doc d), doc_generation := 0\<rparr>"

definition keep_if :: "(doc \<Rightarrow> bool) \<Rightarrow> (string \<Rightarrow> doc option) \<Rightarrow> string \<Rightarrow> doc option" where
  "keep_if P m i = (case m i of Some d \<Rightarrow> if P d then Some d else None | None \<Rightarrow> None)"

text \<open>The schema takes a document if its wrapper parses.\<close>

definition parses :: "serde \<Rightarrow> ('w, 'a, 'd) tantivy \<Rightarrow> doc \<Rightarrow> bool" where
  "parses S T u = (\<exists>x. parse_document T (to_string S (wrapper_of u)) = Inr x)"

text \<open>The effect of an operation, and whether it counts as processed.\<close>

definition store_op :: "serde \<Rightarrow> ('w, 'a, 'd) tantivy \<Rightarrow> index_operation \<Rightarrow> store \<Rightarrow> store \<times> bool" where
  "store_op S T op st =
     (case op_type_of op of
        OpUpsert \<Rightarrow>
          if outdated st op then (st, False)
          else let u = upserted_doc S (found st (op_id op)) (generation st) op
               in (st\<lparr>cached := (cached st)(op_id op \<mapsto> u),
                      next_docs := (next_docs st)(op_id op := if parses S T u then Some (as_read T u) else None)\<rparr>,
                   parses S T u)
      | OpDelete \<Rightarrow>
          if outdated st op then (st, False)
          else (st\<lparr>cached := (cached st)(op_id op := None), next_docs := (next_docs st)(op_id op := None)\<rparr>, True)
      | OpPartitionDelete \<Rightarrow>
          (st\<lparr>cached := keep_if (\<lambda>d. doc_partition_key d \<noteq> op_key op) (cached st),
              next_docs := keep_if (\<lambda>d. doc_partition_key d \<noteq> op_key op) (next_docs st)\<rparr>, True)
      | OpUnspecified \<Rightarrow> (st, False))"

fun store_batch :: "serde \<Rightarrow> ('w, 'a, 'd) tantivy \<Rightarrow> index_operation list \<Rightarrow> store \<Rightarrow> store \<times> nat" where
  "store_batch S T [] st = (st, 0)"
| "store_batch S T (op # ops) st =
     (case store_op S T op st of
        (st', ok) \<Rightarrow> (case store_batch S T ops st' of (st'', n) \<Rightarrow> (st'', (if ok then Suc n else n))))"

definition store_commit :: "store \<Rightarrow> store" where
  "store_commit st = st\<lparr>last_docs := next_docs st, cached := Map.empty, generation := generation st + 1\<rparr>"

definition store_prune :: "i64 \<Rightarrow> store \<Rightarrow> store" where
  "store_prune now st =
     (let live_docs = keep_if (\<lambda>d. sint now < sint (doc_expires d)) (next_docs st)
      in st\<lparr>next_docs := live_docs, last_docs := live_docs\<rparr>)"

definition store_reload :: "store \<Rightarrow> store" where
  "store_reload st = st\<lparr>shown := last_docs st\<rparr>"

section \<open>Documents by id\<close>

definition docs_of :: "serde \<Rightarrow> ('w, 'a, 'd) tantivy \<Rightarrow> 'd list \<Rightarrow> string \<Rightarrow> doc option" where
  "docs_of S T xs i = (case filter (has_term T FieldId i) xs of [] \<Rightarrow> None | x # _ \<Rightarrow> stored_doc S T i x)"

definition store_of :: "serde \<Rightarrow> ('w, 'a, 'd) tantivy \<Rightarrow> ('w, 'd) index_view \<Rightarrow> 'w engine \<Rightarrow> store" where
  "store_of S T V e =
     \<lparr>cached = hm_get (uncommitted_docs e), next_docs = docs_of S T (pending V (writer e)),
      last_docs = docs_of S T (committed V (writer e)), shown = docs_of S T (visible V (writer e)),
      generation = current_generation e\<rparr>"

lemma stored_once:
  assumes "sound_docs S T xs" "x \<in> set xs" "y \<in> set xs" "has_term T FieldId i x" "has_term T FieldId i y"
  shows "x = y"
proof -
  have "length (filter (has_term T FieldId i) xs) \<le> 1" using assms(1) by (simp add: sound_docs_def)
  moreover have "x \<in> set (filter (has_term T FieldId i) xs)" "y \<in> set (filter (has_term T FieldId i) xs)"
    using assms(2-) by simp_all
  ultimately show ?thesis by (cases "filter (has_term T FieldId i) xs") auto
qed

lemma docs_of_Some:
  assumes "sound_docs S T xs"
  shows "docs_of S T xs i = Some d' \<longleftrightarrow>
    (\<exists>x \<in> set xs. \<exists>d. stored_as S T x d \<and> doc_id d = i \<and> d' = as_read T d)"
proof -
  have as_stored: "stored_doc S T i x = Some (as_read T d)" if "stored_as S T x d" "doc_id d = i" for x d
    using stored_doc_back [OF that(1)] that(2) by (simp add: as_read_def)
  show ?thesis
  proof
    assume some: "docs_of S T xs i = Some d'"
    then obtain x ys where x: "filter (has_term T FieldId i) xs = x # ys" "stored_doc S T i x = Some d'"
      by (auto simp: docs_of_def split: list.splits)
    then have in_xs: "x \<in> set xs \<and> has_term T FieldId i x" using filter_set_Cons by fast
    then obtain d where d: "stored_as S T x d" using assms by (auto simp: sound_docs_def)
    then have "doc_id d = i" using in_xs by (simp add: stored_as_terms)
    with as_stored [OF d] x(2) d in_xs show "\<exists>x \<in> set xs. \<exists>d. stored_as S T x d \<and> doc_id d = i \<and> d' = as_read T d"
      by auto
  next
    assume "\<exists>x \<in> set xs. \<exists>d. stored_as S T x d \<and> doc_id d = i \<and> d' = as_read T d"
    then obtain x d where x: "x \<in> set xs" "stored_as S T x d" "doc_id d = i" "d' = as_read T d" by blast
    then have has: "has_term T FieldId i x" by (simp add: stored_as_terms)
    then obtain y ys where y: "filter (has_term T FieldId i) xs = y # ys"
      using x(1) by (cases "filter (has_term T FieldId i) xs") (auto simp: filter_empty_conv)
    then have "y \<in> set xs \<and> has_term T FieldId i y" using filter_set_Cons by fast
    then have "y = x" using stored_once [OF assms _ x(1) _ has] by blast
    then show "docs_of S T xs i = Some d'" using y as_stored [OF x(2,3)] x(4) by (simp add: docs_of_def)
  qed
qed

lemma docs_of_eqI:
  assumes "sound_docs S T xs"
    and "\<And>i d'. m i = Some d' \<longleftrightarrow> (\<exists>x \<in> set xs. \<exists>d. stored_as S T x d \<and> doc_id d = i \<and> d' = as_read T d)"
  shows "docs_of S T xs = m"
proof
  fix i
  have "docs_of S T xs i = Some d' \<longleftrightarrow> m i = Some d'" for d'
    unfolding docs_of_Some [OF assms(1)] assms(2) ..
  then show "docs_of S T xs i = m i" by (cases "m i") auto
qed

lemma as_read_simps [simp]:
  "doc_id (as_read T d) = doc_id d" "doc_partition_key (as_read T d) = doc_partition_key d"
  "doc_expires (as_read T d) = doc_expires d" "doc_writetime (as_read T d) = doc_writetime d"
  by (simp_all add: as_read_def)

lemma docs_of_filter:
  assumes "sound_docs S T xs" "\<And>x d. x \<in> set xs \<Longrightarrow> stored_as S T x d \<Longrightarrow> P x \<longleftrightarrow> Q (as_read T d)"
  shows "docs_of S T (filter P xs) = keep_if Q (docs_of S T xs)"
proof (rule docs_of_eqI [OF sound_docs_filter [OF assms(1)]])
  fix i d'
  have "keep_if Q (docs_of S T xs) i = Some d' \<longleftrightarrow> docs_of S T xs i = Some d' \<and> Q d'"
    by (auto simp: keep_if_def split: option.splits)
  then show "keep_if Q (docs_of S T xs) i = Some d' \<longleftrightarrow>
      (\<exists>x \<in> set (filter P xs). \<exists>d. stored_as S T x d \<and> doc_id d = i \<and> d' = as_read T d)"
    using assms(2) by (auto simp: docs_of_Some [OF assms(1)])
qed

lemma docs_of_delete:
  assumes "sound_docs S T xs"
  shows "docs_of S T (filter (\<lambda>x. \<not> has_term T FieldId i x) xs) = (docs_of S T xs)(i := None)"
proof -
  have "docs_of S T (filter (\<lambda>x. \<not> has_term T FieldId i x) xs) = keep_if (\<lambda>d. doc_id d \<noteq> i) (docs_of S T xs)"
    by (rule docs_of_filter [OF assms]) (auto simp: stored_as_terms)
  also have "\<dots> = (docs_of S T xs)(i := None)"
  proof
    fix j
    have "doc_id d = j" if "docs_of S T xs j = Some d" for d
      using that unfolding docs_of_Some [OF assms] by auto
    then show "keep_if (\<lambda>d. doc_id d \<noteq> i) (docs_of S T xs) j = ((docs_of S T xs)(i := None)) j"
      by (auto simp: keep_if_def split: option.split)
  qed
  finally show ?thesis .
qed

lemma docs_of_replace:
  assumes "sound_docs S T xs" "stored_as S T x d"
  shows "docs_of S T (filter (\<lambda>y. \<not> has_term T FieldId (doc_id d) y) xs @ [x]) =
    (docs_of S T xs)(doc_id d \<mapsto> as_read T d)"
proof -
  have "docs_of S T (filter (\<lambda>y. \<not> has_term T FieldId (doc_id d) y) xs @ [x]) i =
      (if i = doc_id d then Some (as_read T d)
       else docs_of S T (filter (\<lambda>y. \<not> has_term T FieldId (doc_id d) y) xs) i)" for i
    using stored_doc_back [OF assms(2)] stored_as_terms(1) [OF assms(2)]
    by (auto simp: docs_of_def as_read_def filter_empty_conv split: list.split)
  then show ?thesis by (auto simp: docs_of_delete [OF assms(1)])
qed

section \<open>Operations\<close>

lemma find_is_found:
  assumes "reader_laws T V" "engine_inv S T V e"
  shows "find_cached_or_indexed S T e = found (store_of S T V e)"
proof
  fix i
  have "sound_docs S T (visible V (writer e))" using assms(2) by (simp add: inv_defs)
  from find_indexed_visible [OF assms(1) this, of i]
  show "find_cached_or_indexed S T e i = found (store_of S T V e) i"
    by (simp add: find_cached_or_indexed_def found_def store_of_def docs_of_def split: option.split)
qed

lemma outdated_is_stale:
  assumes "reader_laws T V" "engine_inv S T V e"
  shows "outdated (store_of S T V e) op = is_stale (find_cached_or_indexed S T e (op_id op)) op"
  by (simp add: outdated_def is_stale_iff find_is_found [OF assms])

text \<open>An operation that does not fail.\<close>

lemma upsert_is_store_op:
  assumes laws: "serde_wf S" "writer_laws T V" "storage_laws S T" "reader_laws T V" and inv: "engine_inv S T V e"
    and run: "do_upsert S T op e = (e', r)" "op_type_of op = OpUpsert" "\<nexists>err. r = Failed err"
  shows "store_op S T op (store_of S T V e) = (store_of S T V e', r = Processed)"
proof (cases "is_stale (find_cached_or_indexed S T e (op_id op)) op")
  case True
  then have "e' = e" "r = Skipped" using run(1) by (simp_all add: do_upsert_stale)
  moreover have "outdated (store_of S T V e) op" using True outdated_is_stale [OF laws(4) inv] by simp
  ultimately show ?thesis using run(2) by (simp add: store_op_def)
next
  case False
  define u where "u = upserted_doc S (find_cached_or_indexed S T e (op_id op)) (current_generation e) op"
  note eff = do_upsert_fresh [OF False run(1), folded u_def]
  have hm: "hm_inv (uncommitted_docs e)" and c: "cache_inv S T V e" and sound: "sound_docs S T (pending V (writer e))"
    using inv by (simp_all add: inv_defs)
  have u: "doc_id u = op_id op" "json_wf (doc_doc u)"
    using find_wf [OF laws(1) c] upserted_json_wf [OF laws(1)] by (auto simp: u_def upserted_doc_def)
  have cache: "hm_get (uncommitted_docs e') = (hm_get (uncommitted_docs e))(op_id op \<mapsto> u)"
    by (rule ext) (simp add: eff(1) hmap.get_put hm)
  have r: "r = Processed \<longleftrightarrow> parses S T u"
    using run(1,3) False by (auto simp: do_upsert_def Let_def parses_def u_def split: sum.splits)
  have idx: "docs_of S T (pending V (writer e')) = (docs_of S T (pending V (writer e)))
      (op_id op := if parses S T u then Some (as_read T u) else None) \<and>
      committed V (writer e') = committed V (writer e) \<and> visible V (writer e') = visible V (writer e)"
    using eff(4)
  proof (elim disjE conjE exE)
    assume "r \<noteq> Processed" "writer e' = delete_term T FieldId (op_id op) (writer e)"
    then show ?thesis by (simp add: writer_delete [OF laws(2)] docs_of_delete [OF sound] flip: r)
  next
    fix x
    assume x: "r = Processed" "parse_document T (to_string S (wrapper_of u)) = Inr x"
      "add_document T x (delete_term T FieldId (op_id op) (writer e)) = Inr (writer e')"
    then have "stored_as S T x u"
      using laws(3) u(2) by (simp add: storage_laws_def wrapper_of_def stored_as_def)
    from docs_of_replace [OF sound this] show ?thesis
      using x(1) by (simp add: u(1) writer_add [OF laws(2) x(3)] writer_delete [OF laws(2)] flip: r)
  qed
  show ?thesis
    using run(2) False idx r
    by (simp add: store_op_def outdated_is_stale [OF laws(4) inv] flip: find_is_found [OF laws(4) inv])
      (simp add: store_of_def cache eff(2) Let_def u_def)
qed

lemma delete_is_store_op:
  assumes laws: "writer_laws T V" "reader_laws T V" and inv: "engine_inv S T V e"
    and run: "do_delete S T op e = (e', r)" "op_type_of op = OpDelete"
  shows "store_op S T op (store_of S T V e) = (store_of S T V e', r = Processed)"
proof (cases "is_stale (find_cached_or_indexed S T e (op_id op)) op")
  case True
  then have "e' = e" "r = Skipped" using run(1) by (simp_all add: do_delete_def)
  moreover have "outdated (store_of S T V e) op" using True outdated_is_stale [OF laws(2) inv] by simp
  ultimately show ?thesis using run(2) by (simp add: store_op_def)
next
  case False
  have hm: "hm_inv (uncommitted_docs e)" and sound: "sound_docs S T (pending V (writer e))"
    using inv by (simp_all add: inv_defs)
  have "hm_get (hm_remove (op_id op) (uncommitted_docs e)) = (hm_get (uncommitted_docs e))(op_id op := None)"
    by (rule ext) (simp add: hmap.get_remove hm)
  moreover have "\<not> outdated (store_of S T V e) op" using False outdated_is_stale [OF laws(2) inv] by simp
  then have "store_op S T op (store_of S T V e) = ((store_of S T V e)
      \<lparr>cached := (cached (store_of S T V e))(op_id op := None),
       next_docs := (next_docs (store_of S T V e))(op_id op := None)\<rparr>, True)"
    using run(2) by (simp add: store_op_def)
  ultimately show ?thesis
    using run(1) False
    by (auto simp: do_delete_def store_of_def writer_delete [OF laws(1)] docs_of_delete [OF sound])
qed

lemma partition_delete_is_store_op:
  assumes laws: "writer_laws T V" and inv: "engine_inv S T V e"
    and run: "do_partition_delete T op e = (e', r)" "op_type_of op = OpPartitionDelete"
  shows "store_op S T op (store_of S T V e) = (store_of S T V e', r = Processed)"
proof -
  have hm: "hm_inv (uncommitted_docs e)" and sound: "sound_docs S T (pending V (writer e))"
    using inv by (simp_all add: inv_defs)
  have "hm_get (hm_retain (\<lambda>_ d. doc_partition_key d \<noteq> op_key op) (uncommitted_docs e)) =
      keep_if (\<lambda>d. doc_partition_key d \<noteq> op_key op) (hm_get (uncommitted_docs e))"
    by (rule ext) (simp add: hmap.get_retain hm keep_if_def split: option.split)
  moreover have "docs_of S T (filter (\<lambda>x. \<not> has_term T FieldPartitionKey (op_key op) x) (pending V (writer e))) =
      keep_if (\<lambda>d. doc_partition_key d \<noteq> op_key op) (docs_of S T (pending V (writer e)))"
    by (rule docs_of_filter [OF sound]) (auto simp: stored_as_terms)
  ultimately show ?thesis
    using run by (auto simp: do_partition_delete_def store_op_def Let_def store_of_def writer_delete [OF laws(1)])
qed

lemma process_op_is_store_op:
  assumes "serde_wf S" "writer_laws T V" "storage_laws S T" "reader_laws T V" "engine_inv S T V e"
    and "process_op S T op e = (e', r)" "\<nexists>err. r = Failed err"
  shows "store_op S T op (store_of S T V e) = (store_of S T V e', r = Processed)"
proof (cases "op_type_of op")
  case OpUnspecified
  then show ?thesis using assms(6) by (auto simp: process_op_def store_op_def)
next
  case OpUpsert
  then show ?thesis using upsert_is_store_op [OF assms(1-5)] assms(6,7) by (simp add: process_op_def)
next
  case OpDelete
  then show ?thesis using delete_is_store_op [OF assms(2,4,5)] assms(6) by (simp add: process_op_def)
next
  case OpPartitionDelete
  then show ?thesis using partition_delete_is_store_op [OF assms(2,5)] assms(6) by (simp add: process_op_def)
qed

lemma process_ops_is_store_batch:
  assumes laws: "serde_wf S" "writer_laws T V" "storage_laws S T" "reader_laws T V"
    and "engine_inv S T V e" "process_ops S T ops p s e = (e', Inr resp)"
  shows "\<exists>k. store_batch S T ops (store_of S T V e) = (store_of S T V e', k) \<and> k \<le> length ops \<and>
    processed_count resp = p + of_nat k \<and> skipped_count resp = s + of_nat (length ops - k)"
  using assms(5-)
proof (induction ops arbitrary: e p s)
  case (Cons op ops)
  obtain e1 r where r: "process_op S T op e = (e1, r)" by (cases "process_op S T op e")
  have inv1: "engine_inv S T V e1" by (rule engine_inv_op [OF laws(1-3) Cons.prems(1) r])
  have ok: "\<nexists>err. r = Failed err" using Cons.prems(2) r by (cases r) simp_all
  note step = process_op_is_store_op [OF laws Cons.prems(1) r ok]
  show ?case
  proof (cases "r = Processed")
    case True
    then have "process_ops S T ops (p + 1) s e1 = (e', Inr resp)" using Cons.prems(2) r by simp
    from Cons.IH [OF inv1 this] obtain k where "store_batch S T ops (store_of S T V e1) = (store_of S T V e', k)"
      "k \<le> length ops" "processed_count resp = p + 1 + of_nat k" "skipped_count resp = s + of_nat (length ops - k)"
      by blast
    then show ?thesis using step True by (intro exI [of _ "Suc k"]) (simp add: algebra_simps)
  next
    case False
    then have "process_ops S T ops p (s + 1) e1 = (e', Inr resp)" using Cons.prems(2) r ok by (cases r) simp_all
    from Cons.IH [OF inv1 this] obtain k where "store_batch S T ops (store_of S T V e1) = (store_of S T V e', k)"
      "k \<le> length ops" "processed_count resp = p + of_nat k" "skipped_count resp = s + 1 + of_nat (length ops - k)"
      by blast
    then show ?thesis using step False by (intro exI [of _ k]) (simp add: Suc_diff_le algebra_simps)
  qed
qed auto

text \<open>The listing of a partition, from the cache and from what the reader shows.\<close>

lemma listing_is_store:
  assumes "reader_laws T V" "engine_inv S T V e"
  shows "set (list_document_ids_by_partition_key T e pk) =
    {i. \<exists>d. (cached (store_of S T V e) i = Some d \<or> shown (store_of S T V e) i = Some d) \<and> doc_partition_key d = pk}"
proof -
  have sound: "sound_docs S T (visible V (writer e))" using assms(2) by (simp add: inv_defs)
  have "(\<exists>x \<in> set (visible V (writer e)). has_term T FieldPartitionKey pk x \<and> has_term T FieldId i x) \<longleftrightarrow>
      (\<exists>d. docs_of S T (visible V (writer e)) i = Some d \<and> doc_partition_key d = pk)" for i
  proof
    assume "\<exists>x \<in> set (visible V (writer e)). has_term T FieldPartitionKey pk x \<and> has_term T FieldId i x"
    then obtain x d where x: "x \<in> set (visible V (writer e))" "has_term T FieldPartitionKey pk x" "has_term T FieldId i x"
      "stored_as S T x d"
      using sound by (auto simp: sound_docs_def)
    then show "\<exists>d. docs_of S T (visible V (writer e)) i = Some d \<and> doc_partition_key d = pk"
      by (intro exI [of _ "as_read T d"]) (auto simp: docs_of_Some [OF sound] stored_as_terms)
  next
    assume "\<exists>d. docs_of S T (visible V (writer e)) i = Some d \<and> doc_partition_key d = pk"
    then obtain x d where "x \<in> set (visible V (writer e))" "stored_as S T x d" "doc_id d = i" "doc_partition_key d = pk"
      by (auto simp: docs_of_Some [OF sound])
    then show "\<exists>x \<in> set (visible V (writer e)). has_term T FieldPartitionKey pk x \<and> has_term T FieldId i x"
      by (intro bexI [of _ x]) (simp_all add: stored_as_terms)
  qed
  then show ?thesis
    using listing_exact [OF assms, of pk] by (auto simp: store_of_def)
qed

section \<open>Background rounds\<close>

lemma commit_is_store_commit:
  assumes "writer_laws T V" "engine_inv S T V e" "commit_ok T (writer e)" "\<not> poisoned e"
  shows "store_of S T V (commit_tick T False e) = store_commit (store_of S T V e)"
proof -
  have "cache_inv S T V e" using assms(2) by (simp add: engine_inv_def)
  note tick = commit_tick_ok [OF assms(1) this assms(3,4)]
  have "current_generation (commit_tick T False e) = current_generation e + 1"
    using assms(3,4) by (auto simp: commit_tick_def commit_ok_def Let_def split: prod.splits sum.splits)
  moreover have "hm_get [] = Map.empty" by (rule ext) (simp add: hm_get_def)
  ultimately show ?thesis by (simp add: store_of_def store_commit_def tick)
qed

lemma prune_is_store_prune:
  assumes "writer_laws T V" "engine_inv S T V e" "prune_ok T now (writer e)" "\<not> poisoned e"
  shows "store_of S T V (prune_tick T False now e) = store_prune now (store_of S T V e)"
proof -
  obtain s w1 where d: "delete_until T now (writer e) = (Inr s, w1)" and "commit_ok T w1"
    using assms(3) by (auto simp: prune_ok_def split: prod.splits sum.splits)
  from \<open>commit_ok T w1\<close> obtain s' w2 where w2: "commit T w1 = (Inr s', w2)" by (rule commit_okE)
  have e': "prune_tick T False now e = e\<lparr>writer := w2\<rparr>"
    using assms(4) by (simp add: prune_tick_def d w2)
  have sound: "sound_docs S T (pending V (writer e))" using assms(2) by (simp add: inv_defs)
  have "docs_of S T (filter (\<lambda>x. \<not> expired_by T now x) (pending V (writer e))) =
      keep_if (\<lambda>d. sint now < sint (doc_expires d)) (docs_of S T (pending V (writer e)))"
    by (rule docs_of_filter [OF sound]) (auto simp: stored_as_def stores_def expired_by_def)
  then show ?thesis
    by (simp add: e' store_of_def store_prune_def Let_def writer_commit [OF assms(1) w2] writer_delete_until [OF assms(1) d])
qed

lemma reload_is_store_reload:
  "writer_laws T V \<Longrightarrow> store_of S T V (reload_reader T e) = store_reload (store_of S T V e)"
  by (simp add: store_of_def store_reload_def reload_reader_def writer_reload)

lemma published_store:
  assumes "writer_laws T V" "engine_inv S T V e" "commit_ok T (writer e)" "\<not> poisoned e"
  shows "shown (store_of S T V (reload_reader T (commit_tick T False e))) = next_docs (store_of S T V e)"
  by (simp add: reload_is_store_reload [OF assms(1)] commit_is_store_commit [OF assms] store_reload_def store_commit_def)

lemma published_doc:
  assumes "writer_laws T V" "engine_inv S T V e" "commit_ok T (writer e)" "\<not> poisoned e"
    and "x \<in> set (visible V (writer (reload_reader T (commit_tick T False e))))" "stored_as S T x d"
  shows "next_docs (store_of S T V e) (doc_id d) = Some (as_read T d)"
proof -
  have "engine_inv S T V (reload_reader T (commit_tick T False e))"
    using engine_inv_reload [OF assms(1) engine_inv_commit [OF assms(1,2)]] assms(3) by blast
  then have "sound_docs S T (visible V (writer (reload_reader T (commit_tick T False e))))" by (simp add: inv_defs)
  then have "shown (store_of S T V (reload_reader T (commit_tick T False e))) (doc_id d) = Some (as_read T d)"
    using assms(5,6) by (auto simp: store_of_def docs_of_Some)
  then show ?thesis by (simp only: published_store [OF assms(1-4)])
qed

text \<open>Batches change neither what is committed nor what the reader shows.\<close>

lemma process_op_views:
  assumes "writer_laws T V" "process_op S T op e = (e', r)"
  shows "visible V (writer e') = visible V (writer e) \<and> committed V (writer e') = committed V (writer e)"
proof (cases "op_type_of op = OpUpsert \<and> \<not> is_stale (find_cached_or_indexed S T e (op_id op)) op")
  case True
  then have "do_upsert S T op e = (e', r)" using assms(2) by (simp add: process_op_def)
  from do_upsert_fresh(4) [OF _ this] True show ?thesis
    using writer_add(2,3) [OF assms(1)] by (auto simp: writer_delete [OF assms(1)])
next
  case False
  then show ?thesis
    using assms(2) writer_delete [OF assms(1)]
    by (auto simp: process_op_def do_delete_def do_partition_delete_def do_upsert_stale Let_def
        split: op_type.splits if_splits)
qed

lemma process_batch_views:
  assumes "writer_laws T V" "process_batch S T ops e = (e', res)"
  shows "visible V (writer e') = visible V (writer e) \<and> committed V (writer e') = committed V (writer e)"
  by (rule process_batch_invariant [of ops
      "\<lambda>e1. visible V (writer e1) = visible V (writer e) \<and> committed V (writer e1) = committed V (writer e)" S T e e' res])
    (use assms process_op_views [OF assms(1)] in \<open>simp_all (no_asm_simp)\<close>)

section \<open>Runs\<close>

text \<open>The store's steps. \<open>lost\<close> is an upsert whose addition the index refuses after the old version was
  deleted.\<close>

inductive store_step :: "serde \<Rightarrow> ('w, 'a, 'd) tantivy \<Rightarrow> store \<Rightarrow> store \<Rightarrow> bool" for S T where
  applied: "store_step S T st (fst (store_op S T op st))"
| lost: "\<not> outdated st op \<Longrightarrow> u = upserted_doc S (found st (op_id op)) (generation st) op \<Longrightarrow>
    store_step S T st (st\<lparr>cached := (cached st)(op_id op \<mapsto> u), next_docs := (next_docs st)(op_id op := None)\<rparr>)"
| committed_all: "store_step S T st (store_commit st)"
| pruned: "store_step S T st (store_prune now st)"
| reloaded: "store_step S T st (store_reload st)"

definition empty_store :: store where
  "empty_store = \<lparr>cached = Map.empty, next_docs = Map.empty, last_docs = Map.empty, shown = Map.empty, generation = 0\<rparr>"

lemma failed_upsert_store:
  assumes "writer_laws T V" "reader_laws T V" and inv: "engine_inv S T V e"
    and run: "process_op S T op e = (e', Failed err)"
  defines "u \<equiv> upserted_doc S (found (store_of S T V e) (op_id op)) (generation (store_of S T V e)) op"
  shows "\<not> outdated (store_of S T V e) op \<and> store_of S T V e' = (store_of S T V e)
    \<lparr>cached := (cached (store_of S T V e))(op_id op \<mapsto> u), next_docs := (next_docs (store_of S T V e))(op_id op := None)\<rparr>"
proof -
  have up: "do_upsert S T op e = (e', Failed err)"
    using run process_op_failed [OF run] by (simp add: process_op_def)
  then have fresh: "\<not> is_stale (find_cached_or_indexed S T e (op_id op)) op" by (auto simp: do_upsert_stale)
  note eff = do_upsert_fresh [OF fresh up]
  have hm: "hm_inv (uncommitted_docs e)" and sound: "sound_docs S T (pending V (writer e))"
    using inv by (simp_all add: inv_defs)
  have "hm_get (uncommitted_docs e') = (hm_get (uncommitted_docs e))(op_id op \<mapsto> u)"
    by (rule ext) (simp add: eff(1) hmap.get_put hm find_is_found [OF assms(2) inv] u_def store_of_def)
  moreover have "writer e' = delete_term T FieldId (op_id op) (writer e)" using eff(4) by simp
  ultimately show ?thesis
    using fresh outdated_is_stale [OF assms(2) inv]
    by (simp add: store_of_def eff(2) writer_delete [OF assms(1)] docs_of_delete [OF sound])
qed

lemma process_op_steps:
  assumes "serde_wf S" "writer_laws T V" "storage_laws S T" "reader_laws T V" "engine_inv S T V e"
    and "process_op S T op e = (e', r)"
  shows "store_step S T (store_of S T V e) (store_of S T V e')"
proof (cases "\<exists>err. r = Failed err")
  case True
  then show ?thesis
    using failed_upsert_store [OF assms(2,4,5)] assms(6) store_step.lost [OF _ refl] by fastforce
next
  case False
  have "fst (store_op S T op (store_of S T V e)) = store_of S T V e'"
    using process_op_is_store_op [OF assms] False by simp
  then show ?thesis using store_step.applied [of S T "store_of S T V e" op] by simp
qed

lemma engine_step_simulated:
  assumes laws: "serde_wf S" "writer_laws T V" "storage_laws S T" "reader_laws T V"
    and "engine_inv S T V e" "engine_step S T e e'"
  shows "(store_step S T)\<^sup>*\<^sup>* (store_of S T V e) (store_of S T V e')"
  using assms(6,5)
proof (induction rule: engine_step.induct)
  case (batch ops e e' res)
  let ?I = "\<lambda>e1. engine_inv S T V e1 \<and> (store_step S T)\<^sup>*\<^sup>* (store_of S T V e) (store_of S T V e1)"
  have "?I e'"
  proof (rule process_batch_invariant [of ops ?I S T e e' res])
    fix op e1 e2 r
    assume "?I e1" "process_op S T op e1 = (e2, r)"
    then show "?I e2"
      using engine_inv_op [OF laws(1-3)] process_op_steps [OF laws] rtranclp.rtrancl_into_rtrancl by metis
  qed (use batch in simp_all)
  then show ?case by simp
next
  case (commits contended e)
  show ?case
  proof (cases "contended \<or> poisoned e")
    case False
    then have "commit_tick T contended e = commit_tick T False e" by simp
    then show ?thesis
      using commit_is_store_commit [OF laws(2) commits(2)] commits(1) False store_step.committed_all by fastforce
  qed (simp add: commit_tick_def)
next
  case (prunes contended now e)
  show ?case
  proof (cases "contended \<or> poisoned e")
    case False
    then have "prune_tick T contended now e = prune_tick T False now e" by simp
    then show ?thesis
      using prune_is_store_prune [OF laws(2) prunes(2)] prunes(1) False store_step.pruned by fastforce
  qed (simp add: prune_tick_def)
next
  case (reloads e)
  then show ?case using reload_is_store_reload [OF laws(2), of S e] store_step.reloaded by fastforce
next
  case (panics e)
  then show ?case by (simp add: store_of_def)
qed

lemma engine_reach_simulated:
  assumes laws: "serde_wf S" "writer_laws T V" "storage_laws S T" "reader_laws T V"
    and "engine_reach S T w e" "fresh_index V w"
  shows "(store_step S T)\<^sup>*\<^sup>* empty_store (store_of S T V e)"
  using assms(5)
proof (induction rule: engine_reach.induct)
  case start
  have "store_of S T V (new_engine w) = empty_store"
    using assms(6) by (simp add: store_of_def empty_store_def new_engine_def fresh_index_def docs_of_def hm_get_def fun_eq_iff)
  then show ?case by simp
next
  case (step e e')
  from step(1) have "engine_inv S T V e" by (rule engine_inv_reach [OF _ assms(6) laws(1-3)])
  from engine_step_simulated [OF laws this step(2)] step.IH show ?case by (rule rtranclp_trans [rotated])
qed

section \<open>Properties\<close>

text \<open>C2: A batch is a batch of the store. For any mix of upserts, deletes and partition deletes that is answered,
  what the cache holds, what the next commit publishes, what the last one published and what the reader shows
  change exactly as the store says, operation by operation, and the answer counts as processed the operations
  the store applied and as skipped the others; lookups before and after are lookups of the store.\<close>

theorem batch_refines_store:
  assumes "serde_wf S" "writer_laws T V" "storage_laws S T" "reader_laws T V" "engine_inv S T V e"
    and "process_batch S T ops e = (e', Inr resp)"
  shows "\<exists>k \<le> length ops. store_batch S T ops (store_of S T V e) = (store_of S T V e', k) \<and>
      processed_count resp = of_nat k \<and> skipped_count resp = of_nat (length ops - k) \<and>
      find_cached_or_indexed S T e = found (store_of S T V e) \<and>
      find_cached_or_indexed S T e' = found (store_of S T V e')"
proof -
  have "process_ops S T ops 0 0 e = (e', Inr resp)"
    using assms(6) by (simp add: process_batch_def split: if_splits)
  from process_ops_is_store_batch [OF assms(1-5) this] obtain k where
    "store_batch S T ops (store_of S T V e) = (store_of S T V e', k)" "k \<le> length ops"
    "processed_count resp = of_nat k" "skipped_count resp = of_nat (length ops - k)"
    by auto
  then show ?thesis
    using find_is_found [OF assms(4,5)] find_is_found [OF assms(4) engine_inv_batch [OF assms(1-3,5,6)]]
    by (intro exI [of _ k]) simp
qed

definition mixed_ops :: "index_operation list" where
  "mixed_ops =
     [sample_op OpUpsert ''p'' 5 (JObject [(''a'', JBool True)]), sample_op OpUpsert ''q'' 7 (JObject []),
      sample_op OpDelete ''p'' 4 JNull, sample_op OpDelete ''p'' 6 JNull, sample_op OpPartitionDelete ''q'' 0 JNull]"

theorem batch_refines_store_witness:
  "store_batch ref_serde ref_tantivy mixed_ops (store_of ref_serde ref_tantivy ref_view ref_engine) =
     (store_of ref_serde ref_tantivy ref_view (fst (process_batch ref_serde ref_tantivy mixed_ops ref_engine)), 4)"
proof -
  have "snd (process_batch ref_serde ref_tantivy mixed_ops ref_engine) =
      Inr \<lparr>processed_count = 4, skipped_count = 1, success = True\<rparr>"
    by (simp add: mixed_ops_def engine_eval ref_eval)
  then have run: "process_batch ref_serde ref_tantivy mixed_ops ref_engine =
      (fst (process_batch ref_serde ref_tantivy mixed_ops ref_engine), Inr \<lparr>processed_count = 4, skipped_count = 1, success = True\<rparr>)"
    by (simp add: prod_eq_iff)
  from batch_refines_store [OF ref_serde_wf ref_writer_laws ref_storage_laws ref_reader_laws ref_engine_inv run]
  obtain k where k: "k \<le> 5" "(4 :: u32) = of_nat k" "store_batch ref_serde ref_tantivy mixed_ops (store_of ref_serde ref_tantivy ref_view ref_engine) =
     (store_of ref_serde ref_tantivy ref_view (fst (process_batch ref_serde ref_tantivy mixed_ops ref_engine)), k)"
    by (auto simp: mixed_ops_def)
  have "k = unat (of_nat k :: u32)" using k(1) by (simp add: unat_of_nat take_bit_nat_eq_self)
  also have "\<dots> = 4" by (simp flip: k(2))
  finally have "k = 4" .
  with k(3) show ?thesis by simp
qed



text \<open>C35: Expired content comes back. Lookups do not look at the time a document expires, and neither the cache nor
  the index drops it before a prune: a newer upsert without a time to live is merged into a document that has
  already expired, so every member the payload does not name lives again, and for ever.\<close>

theorem expired_content_comes_back:
  fixes now :: i64
  assumes "serde_wf S" "engine_inv S T V e" "find_cached_or_indexed S T e (op_id op) = Some old"
    and "sint (doc_expires old) \<le> sint now" "doc_writetime old < op_writetime op"
    and "op_cdc_ttl op = None" "op_collection_deltas op = []"
    and "doc_doc old = JObject m" "bt_get m k = Some v"
    and "from_str S (op_payload_json op) = Some (JObject patch)" "bt_get patch k = None"
    and "do_upsert S T op e = (e', r)"
  shows "\<exists>d m'. find_cached_or_indexed S T e' (op_id op) = Some d \<and> doc_doc d = JObject m' \<and> bt_get m' k = Some v \<and>
    doc_expires d = i64_max"
proof -
  have hm: "hm_inv (uncommitted_docs e)" using assms(2) by (simp add: inv_defs)
  have fresh: "\<not> is_stale (find_cached_or_indexed S T e (op_id op)) op"
    using assms(3,5) by (simp add: is_stale_def not_le)
  have "json_wf (JObject patch)" using assms(1,10) unfolding serde_wf_def by blast
  then have "bt_inv patch" by simp
  then have merged: "bt_get (merge_members m patch) k = Some v" using assms(9,11) by (simp add: merge_members_get)
  have "find_cached_or_indexed S T e' (op_id op) = Some (upserted_doc S (Some old) (current_generation e) op)"
    using do_upsert_fresh(1) [OF fresh assms(12)] assms(3) by (simp add: find_cached_or_indexed_def hmap.get_put hm)
  then show ?thesis
    using merged assms(6-8,10)
    by (simp add: upserted_doc_def upserted_json_def expires_at_of_def)
qed

theorem expired_content_comes_back_witness:
  "let e = fst (process_batch ref_serde ref_tantivy
         [sample_op OpUpsert ''p'' 5 (JObject [(''a'', JBool True)])\<lparr>op_cdc_ttl := Some 1\<rparr>] ref_engine);
       e' = fst (do_upsert ref_serde ref_tantivy (sample_op OpUpsert ''p'' 2000000 (JObject [(''b'', JBool True)])) e)
   in \<exists>d m. find_cached_or_indexed ref_serde ref_tantivy e' ''p'' = Some d \<and> doc_doc d = JObject m \<and>
        bt_get m ''a'' = Some (JBool True)"
proof -
  let ?old = "[sample_op OpUpsert ''p'' 5 (JObject [(''a'', JBool True)])\<lparr>op_cdc_ttl := Some 1\<rparr>]"
  let ?op = "sample_op OpUpsert ''p'' 2000000 (JObject [(''b'', JBool True)])"
  define e where "e = fst (process_batch ref_serde ref_tantivy ?old ref_engine)"
  have "engine_inv ref_serde ref_tantivy ref_view e"
    unfolding e_def by (rule ref_batch_inv [OF ref_engine_inv])
  moreover have "expires_at_of 5 (Some 1) = 1000005"
    by code_simp
  then have "find_cached_or_indexed ref_serde ref_tantivy e (op_id ?op) =
      Some \<lparr>doc_id = ''p'', doc_partition_key = ''p'', doc_doc = JObject [(''a'', JBool True)],
        doc_expires = 1000005, doc_writetime = 5, doc_generation = 0\<rparr>"
    by (simp add: e_def engine_eval ref_eval bt_entry_or_def bt_inv_Cons)
  moreover have "from_str ref_serde (op_payload_json ?op) = Some (JObject [(''b'', JBool True)])"
    by (simp add: sample_op_def ref_eval bt_inv_Cons)
  ultimately show ?thesis
    using expired_content_comes_back [of ref_serde ref_tantivy ref_view e ?op _ 2000000 "[(''a'', JBool True)]" "''a''" "JBool True"
        "[(''b'', JBool True)]" "fst (do_upsert ref_serde ref_tantivy ?op e)" "snd (do_upsert ref_serde ref_tantivy ?op e)"]
      ref_serde_wf
    by (simp add: Let_def bt_get_Cons flip: e_def) (auto simp: sample_op_def)
qed

end
