(* ===== verification/Engine_Faults.thy ===== *)
theory Engine_Faults
  imports Engine_Props
begin

text \<open>
  Rounds that fail. A commit that fails lowers the generation counter, so cached documents may be of a
  generation the counter no longer has, and outlive later commits. Nothing but the eviction reads
  generations: \<open>regen\<close> gives every cached document the current one, and every operation is the same up to it
  (\<open>process_op_regen\<close>). So the engine's invariant survives failing rounds up to generations (\<open>engine_sound\<close>).
\<close>

section \<open>Engines up to generations\<close>

definition with_gen :: "u64 \<Rightarrow> (string \<times> doc) list \<Rightarrow> (string \<times> doc) list" where
  "with_gen g m = map (\<lambda>en. (fst en, snd en\<lparr>doc_generation := g\<rparr>)) m"

definition regen :: "'w engine \<Rightarrow> 'w engine" where
  "regen e = e\<lparr>uncommitted_docs := with_gen (current_generation e) (uncommitted_docs e)\<rparr>"

lemma with_gen_get [simp]: "hm_get (with_gen g m) i = map_option (\<lambda>d. d\<lparr>doc_generation := g\<rparr>) (hm_get m i)"
  by (induction m) (auto simp: with_gen_def hm_get_def)

lemma with_gen_inv [simp]: "hm_inv (with_gen g m) = hm_inv m"
  by (simp add: hm_inv_def with_gen_def comp_def)

lemma with_gen_put: "with_gen g (hm_put i d m) = hm_put i (d\<lparr>doc_generation := g\<rparr>) (with_gen g m)"
  by (induction m) (auto simp: with_gen_def hm_put_def)

lemma with_gen_remove: "with_gen g (hm_remove i m) = hm_remove i (with_gen g m)"
  by (simp add: with_gen_def hm_remove_def filter_map comp_def)

lemma with_gen_retain:
  "(\<And>i d. P i (d\<lparr>doc_generation := g\<rparr>) = P i d) \<Longrightarrow> with_gen g (hm_retain P m) = hm_retain P (with_gen g m)"
  by (simp add: with_gen_def hm_retain_def filter_map comp_def)

lemma regen_simps [simp]:
  "writer (regen e) = writer e" "poisoned (regen e) = poisoned e" "current_generation (regen e) = current_generation e"
  "uncommitted_docs (regen e) = with_gen (current_generation e) (uncommitted_docs e)"
  by (simp_all add: regen_def)

lemma find_regen:
  "\<exists>g. find_cached_or_indexed S T (regen e) i =
    map_option (\<lambda>d. d\<lparr>doc_generation := g d\<rparr>) (find_cached_or_indexed S T e i)"
proof (cases "hm_get (uncommitted_docs e) i")
  case None
  then show ?thesis
    by (intro exI [of _ doc_generation]) (simp add: find_cached_or_indexed_def option.map_ident)
next
  case (Some d)
  then show ?thesis
    by (intro exI [of _ "\<lambda>_. current_generation e"]) (simp add: find_cached_or_indexed_def)
qed

lemma stale_regen: "is_stale (find_cached_or_indexed S T (regen e) i) op = is_stale (find_cached_or_indexed S T e i) op"
  using find_regen [of S T e i] by (auto simp: is_stale_def split: option.split)

lemma upserted_regen:
  "upserted_doc S (find_cached_or_indexed S T (regen e) i) g op = upserted_doc S (find_cached_or_indexed S T e i) g op"
  using find_regen [of S T e i] by (auto simp: upserted_doc_def upserted_json_def split: option.split)

lemma process_op_regen:
  "process_op S T op (regen e) = (case process_op S T op e of (e', r) \<Rightarrow> (regen e', r))"
proof -
  have "do_upsert S T op (regen e) = (case do_upsert S T op e of (e', r) \<Rightarrow> (regen e', r))"
    by (simp add: do_upsert_def Let_def stale_regen upserted_regen split: sum.split)
      (simp add: regen_def with_gen_put upserted_doc_def)
  moreover have "do_delete S T op (regen e) = (case do_delete S T op e of (e', r) \<Rightarrow> (regen e', r))"
    by (simp add: do_delete_def stale_regen) (simp add: regen_def with_gen_remove)
  moreover have "do_partition_delete T op (regen e) = (case do_partition_delete T op e of (e', r) \<Rightarrow> (regen e', r))"
    by (simp add: do_partition_delete_def Let_def) (simp add: regen_def with_gen_retain)
  ultimately show ?thesis by (simp add: process_op_def split: op_type.split)
qed

section \<open>The invariant without generations\<close>

definition engine_sound :: "serde \<Rightarrow> ('w, 'a, 'd) tantivy \<Rightarrow> ('w, 'd) index_view \<Rightarrow> 'w engine \<Rightarrow> bool" where
  "engine_sound S T V e =
     (hm_inv (uncommitted_docs e) \<and> index_inv S T V (writer e) \<and>
      (\<forall>i d. hm_get (uncommitted_docs e) i = Some d \<longrightarrow>
         doc_id d = i \<and> json_wf (doc_doc d) \<and>
         (\<forall>x \<in> set (pending V (writer e)). has_term T FieldId i x \<longrightarrow> stored_as S T x d)) \<and>
      (\<forall>x \<in> set (pending V (writer e)).
         x \<in> set (committed V (writer e)) \<or>
         (\<exists>i d. hm_get (uncommitted_docs e) i = Some d \<and> has_term T FieldId i x)))"

lemma stored_as_gen [simp]: "stored_as S T x (d\<lparr>doc_generation := g\<rparr>) = stored_as S T x d"
  by (simp add: stored_as_def)

lemma engine_sound_regen: "engine_sound S T V e \<longleftrightarrow> engine_inv S T V (regen e)"
proof -
  have cached: "(\<forall>i d. map_option f (m i) = Some d \<longrightarrow> P i d) \<longleftrightarrow> (\<forall>i d. m i = Some d \<longrightarrow> P i (f d))"
    "(\<exists>i d. map_option f (m i) = Some d \<and> Q i) \<longleftrightarrow> (\<exists>i d. m i = Some d \<and> Q i)"
    for f :: "doc \<Rightarrow> doc" and m :: "string \<Rightarrow> doc option" and P Q
    by auto
  show ?thesis
    unfolding engine_sound_def engine_inv_def cache_inv_def regen_simps with_gen_get with_gen_inv cached
    by (simp add: conj_ac)
qed

lemma engine_inv_sound: "engine_inv S T V e \<Longrightarrow> engine_sound S T V e"
  unfolding engine_sound_def inv_defs by blast

lemma sound_batch:
  assumes "serde_wf S" "writer_laws T V" "storage_laws S T" "engine_sound S T V e"
    and "process_batch S T ops e = (e', res)"
  shows "engine_sound S T V e'"
proof (rule process_batch_invariant [of ops "engine_sound S T V" S T e e' res])
  fix op e1 e2 r
  assume "engine_sound S T V e1" "process_op S T op e1 = (e2, r)"
  then show "engine_sound S T V e2"
    using engine_inv_op [OF assms(1-3), of "regen e1" op "regen e2" r]
    by (simp add: engine_sound_regen process_op_regen)
qed (use assms in simp_all)

text \<open>A commit or a deletion that fails leaves the documents as they are.\<close>

definition failure_laws :: "('w, 'a, 'd) tantivy \<Rightarrow> ('w, 'd) index_view \<Rightarrow> bool" where
  "failure_laws T V =
    ((\<forall>w err w'. commit T w = (Inl err, w') \<longrightarrow>
        pending V w' = pending V w \<and> committed V w' = committed V w \<and> visible V w' = visible V w) \<and>
     (\<forall>now w err w'. delete_until T now w = (Inl err, w') \<longrightarrow>
        pending V w' = pending V w \<and> committed V w' = committed V w \<and> visible V w' = visible V w))"

text \<open>All an engine depends on is what its index shows.\<close>

lemma sound_same:
  assumes "engine_sound S T V e" "pending V w' = pending V (writer e)" "visible V w' = visible V (writer e)"
    and "committed V w' = committed V (writer e) \<or> committed V w' = pending V (writer e)"
  shows "engine_sound S T V (e\<lparr>writer := w'\<rparr>)"
proof -
  have "index_inv S T V w'" using assms by (auto simp: engine_sound_def index_inv_def)
  then show ?thesis using assms by (auto simp: engine_sound_def)
qed

lemma sound_any_commit:
  assumes "writer_laws T V" "failure_laws T V" "engine_sound S T V e" "commit T (writer e) = (r, w')"
  shows "engine_sound S T V (e\<lparr>writer := w'\<rparr>)"
proof (cases r)
  case (Inl err)
  have "pending V w' = pending V (writer e) \<and> committed V w' = committed V (writer e) \<and> visible V w' = visible V (writer e)"
    using assms(2,4) Inl unfolding failure_laws_def by blast
  then show ?thesis by (intro sound_same [OF assms(3)]) simp_all
next
  case (Inr s)
  from writer_commit [OF assms(1) assms(4) [unfolded Inr]] show ?thesis by (intro sound_same [OF assms(3)]) simp_all
qed

text \<open>After a commit that succeeds the cache may lose anything.\<close>

lemma sound_commit_tick:
  assumes "writer_laws T V" "failure_laws T V" "engine_sound S T V e"
  shows "engine_sound S T V (commit_tick T c e)"
proof (cases "c \<or> poisoned e")
  case False
  obtain r w' where cm: "commit T (writer e) = (r, w')" by (cases "commit T (writer e)")
  have kept: "engine_sound S T V (e\<lparr>writer := w'\<rparr>)" by (rule sound_any_commit [OF assms cm])
  show ?thesis
  proof (cases r)
    case (Inl err)
    then have "commit_tick T c e = e\<lparr>writer := w', current_generation := current_generation e - 1\<rparr>"
      using False cm by (simp add: commit_tick_def)
    then show ?thesis using kept by (simp add: engine_sound_def)
  next
    case (Inr s)
    then have e': "commit_tick T c e = e\<lparr>writer := w', current_generation := current_generation e + 1,
        uncommitted_docs := hm_retain (\<lambda>_ d. current_generation e < doc_generation d) (uncommitted_docs e)\<rparr>"
      using False cm by (simp add: commit_tick_def Let_def)
    have hm: "hm_inv (uncommitted_docs e)" using assms(3) by (simp add: engine_sound_def)
    have "committed V w' = pending V w'" using writer_commit [OF assms(1) cm [unfolded Inr]] by simp
    then show ?thesis
      using kept hm by (auto simp: e' engine_sound_def hmap.get_retain hmap.inv_retain split: option.splits if_splits)
  qed
qed (use assms(3) in \<open>simp add: commit_tick_def\<close>)

lemma sound_prune_tick:
  assumes "writer_laws T V" "failure_laws T V" "engine_sound S T V e"
  shows "engine_sound S T V (prune_tick T c now e)"
proof (cases "c \<or> poisoned e")
  case False
  obtain r w1 where d: "delete_until T now (writer e) = (r, w1)" by (cases "delete_until T now (writer e)")
  show ?thesis
  proof (cases r)
    case (Inl err)
    have "pending V w1 = pending V (writer e) \<and> committed V w1 = committed V (writer e) \<and> visible V w1 = visible V (writer e)"
      using assms(2) d Inl unfolding failure_laws_def by blast
    then have "engine_sound S T V (e\<lparr>writer := w1\<rparr>)" by (intro sound_same [OF assms(3)]) simp_all
    then show ?thesis using False d Inl by (simp add: prune_tick_def)
  next
    case (Inr s)
    note views = writer_delete_until [OF assms(1) d [unfolded Inr]]
    have "index_inv S T V w1"
      using assms(3) by (simp add: engine_sound_def index_inv_def views sound_docs_filter)
    then have less: "engine_sound S T V (e\<lparr>writer := w1\<rparr>)"
      using assms(3) by (auto simp: engine_sound_def views)
    obtain r2 w2 where cm: "commit T w1 = (r2, w2)" by (cases "commit T w1")
    then have "engine_sound S T V (e\<lparr>writer := w2\<rparr>)"
      using sound_any_commit [OF assms(1,2) less, of r2 w2] by simp
    then show ?thesis using False d Inr cm by (simp add: prune_tick_def)
  qed
qed (use assms(3) in \<open>simp add: prune_tick_def\<close>)

section \<open>Runs with rounds that fail\<close>

inductive faulty_step :: "serde \<Rightarrow> ('w, 'a, 'd) tantivy \<Rightarrow> 'w engine \<Rightarrow> 'w engine \<Rightarrow> bool"
  for S T where
  any_batch: "process_batch S T ops e = (e', res) \<Longrightarrow> faulty_step S T e e'"
| any_commit: "faulty_step S T e (commit_tick T contended e)"
| any_prune: "faulty_step S T e (prune_tick T contended now e)"
| any_reload: "faulty_step S T e (reload_reader T e)"
| any_panic: "faulty_step S T e (e\<lparr>poisoned := True\<rparr>)"

lemma faulty_step_sound:
  assumes "faulty_step S T e e'" "serde_wf S" "writer_laws T V" "storage_laws S T" "failure_laws T V" "engine_sound S T V e"
  shows "engine_sound S T V e'"
  using assms(1,6)
proof (induction rule: faulty_step.induct)
  case (any_batch ops e e' res)
  then show ?case using sound_batch [OF assms(2-4)] by blast
next
  case (any_reload e)
  then show ?case
    by (simp add: reload_reader_def engine_sound_def index_inv_def writer_reload [OF assms(3)])
next
  case (any_panic e)
  then show ?case by (simp add: engine_sound_def)
qed (simp_all add: sound_commit_tick [OF assms(3,5)] sound_prune_tick [OF assms(3,5)])

lemma faulty_runs_sound:
  assumes "(faulty_step S T)\<^sup>*\<^sup>* e e'" "serde_wf S" "writer_laws T V" "storage_laws S T" "failure_laws T V" "engine_sound S T V e"
  shows "engine_sound S T V e'"
  using assms(1,6) by induction (use faulty_step_sound [OF _ assms(2-5)] in blast)+

section \<open>Properties\<close>


text \<open>An index whose first commit fails.\<close>

definition moody_tantivy :: "(ref_index, json, json) tantivy" where
  "moody_tantivy = ref_tantivy\<lparr>commit := (\<lambda>w.
     if r_opstamp w = 0 then (Inl ''disk full'', w\<lparr>r_opstamp := 1\<rparr>)
     else (Inr (r_opstamp w), w\<lparr>r_committed := r_pending w, r_opstamp := r_opstamp w + 1\<rparr>))\<rparr>"

lemma moody_laws: "writer_laws moody_tantivy ref_view" "storage_laws ref_serde moody_tantivy" "failure_laws moody_tantivy ref_view"
proof -
  have same: "has_term moody_tantivy f t x = has_term ref_tantivy f t x" "expired_by moody_tantivy now x = expired_by ref_tantivy now x"
    for f t x now
    by (simp_all add: has_term_def expired_by_def moody_tantivy_def)
  show "writer_laws moody_tantivy ref_view"
    using ref_writer_laws unfolding writer_laws_def same by (simp add: moody_tantivy_def ref_eval)
  show "storage_laws ref_serde moody_tantivy"
    using ref_storage_laws by (simp add: storage_laws_def stores_def moody_tantivy_def has_term_def)
  show "failure_laws moody_tantivy ref_view"
    by (simp add: failure_laws_def moody_tantivy_def ref_eval)
qed


end
