(* ===== verification/Cql.thy ===== *)
theory Cql
  imports Document
begin

text \<open>
  Values and rows as the ingestor sees them (\<open>ingestor/src/router/utils.rs\<close>): how a CQL value
  becomes a key string or JSON, how a CDC row becomes a payload with collection deltas, how two key
  strings of a clustering column compare, and which node a row is routed to. \<open>CqlValue\<close> and
  \<open>CDCRow\<close> come from the driver crates: the value type has the constructors the code matches on
  (every other one is \<open>CqlOther\<close>), and a row is what its accessors return. The texts that
  third-party or floating-point formatting produces are fields of a \<open>formats\<close> record.
\<close>

section \<open>Values\<close>

type_synonym uuid = "128 word"

datatype cql_value =
    CqlAscii string
  | CqlText string
  | CqlUuid uuid
  | CqlTimeuuid uuid
  | CqlInt i32
  | CqlBigInt i64
  | CqlBoolean bool
  | CqlFloat f32
  | CqlDouble f64
  | CqlBlob "u8 list"
  | CqlInet string \<comment> \<open>an address, by its canonical text\<close>
  | CqlDecimal "u8 list" i32
  | CqlTimestamp i64
  | CqlList "cql_value list"
  | CqlSet "cql_value list"
  | CqlMap "(cql_value \<times> cql_value) list"
  | CqlUserDefinedType "(string \<times> cql_value option) list"
  | CqlTuple "cql_value option list"
  | CqlOther string string \<comment> \<open>any other constructor, with its content as text\<close>

record formats =
  debug_str :: "cql_value \<Rightarrow> string" \<comment> \<open>\<open>{:?}\<close>\<close>
  display_str :: "cql_value \<Rightarrow> string" \<comment> \<open>\<open>CqlValue::to_string\<close>, a CQL literal\<close>
  uuid_str :: "uuid \<Rightarrow> string"
  f32_str :: "f32 \<Rightarrow> string"
  f64_str :: "f64 \<Rightarrow> string"
  base64_str :: "u8 list \<Rightarrow> string"
  decimal_str :: "u8 list \<Rightarrow> i32 \<Rightarrow> string"
  f32_parse :: "string \<Rightarrow> f32 option"
  f64_parse :: "string \<Rightarrow> f64 option"
  uuid_unix :: "uuid \<Rightarrow> (u64 \<times> u32) option" \<comment> \<open>\<open>get_timestamp\<close>, as seconds and nanoseconds\<close>
  xx_hash64 :: "string \<Rightarrow> u64" \<comment> \<open>\<open>XxHash64\<close> with seed 0 of the bytes fed to it\<close>

definition cql_value_to_key_string :: "formats \<Rightarrow> cql_value \<Rightarrow> string" where
  "cql_value_to_key_string F val =
     (case val of
        CqlAscii s \<Rightarrow> s
      | CqlText s \<Rightarrow> s
      | CqlUuid u \<Rightarrow> uuid_str F u
      | CqlTimeuuid t \<Rightarrow> uuid_str F t
      | CqlInt i \<Rightarrow> show_int (sint i)
      | CqlBigInt i \<Rightarrow> show_int (sint i)
      | CqlBoolean b \<Rightarrow> show_bool b
      | CqlFloat f \<Rightarrow> f32_str F f
      | CqlDouble f \<Rightarrow> f64_str F f
      | CqlBlob b \<Rightarrow> base64_str F b
      | CqlInet ip \<Rightarrow> ip
      | _ \<Rightarrow> debug_str F val)"

text \<open>The widening cast \<open>f32 as f64\<close>, on bit patterns.\<close>

definition f64_of_f32 :: "f32 \<Rightarrow> f64" where
  "f64_of_f32 x =
     (let s = (if bit x 31 then 2 ^ 63 else 0 :: nat);
          e = unat (take_bit 8 (drop_bit 23 x));
          m = unat (take_bit 23 x)
      in if e = 255 then of_nat (s + 2047 * 2 ^ 52 + m * 2 ^ 29)
         else if e \<noteq> 0 then of_nat (s + (e + 896) * 2 ^ 52 + m * 2 ^ 29)
         else if m = 0 then of_nat s
         else let k = last (filter (\<lambda>i. 2 ^ i \<le> m) [0..<23])
              in of_nat (s + (k + 874) * 2 ^ 52 + (m - 2 ^ k) * 2 ^ (52 - k)))"

text \<open>\<open>Number::from_f64\<close> refuses NaN and the infinities.\<close>

definition number_from_f64 :: "f64 \<Rightarrow> json" where
  "number_from_f64 f = (if f64_magnitude f < 0x7FF0000000000000 then JNumber (Float f) else JNull)"

lemma number_from_f64_wf: "json_wf (number_from_f64 f)"
  by (simp add: number_from_f64_def f64_is_nan_def)

lemma size_map_snd [termination_simp]:
  "e \<in> set pairs \<Longrightarrow> size (snd e) < Suc (size_list (size_prod size size) pairs)"
  by (rule le_imp_less_Suc, rule size_list_estimation') (auto simp: size_prod_simp)

lemma size_udt_snd [termination_simp]:
  "e \<in> set fs \<Longrightarrow> snd e = Some v \<Longrightarrow> size v < Suc (size_list (size_prod (\<lambda>x. 0) (size_option size)) fs)"
  by (rule le_imp_less_Suc, rule size_list_estimation') (auto simp: size_prod_simp)

lemma size_tuple_mem [termination_simp]:
  "x \<in> set xs \<Longrightarrow> x = Some v \<Longrightarrow> size v < Suc (size_list (size_option size) xs)"
  by (rule le_imp_less_Suc, rule size_list_estimation') auto

fun map_key :: "formats \<Rightarrow> cql_value \<Rightarrow> string" where
  "map_key F (CqlText s) = s"
| "map_key F (CqlAscii s) = s"
| "map_key F k = debug_str F k"

fun cql_to_json :: "formats \<Rightarrow> cql_value \<Rightarrow> json" where
  "cql_to_json F (CqlAscii s) = JString s"
| "cql_to_json F (CqlText s) = JString s"
| "cql_to_json F (CqlBoolean b) = JBool b"
| "cql_to_json F (CqlInt i) = JNumber (number_of_i64 (scast i))"
| "cql_to_json F (CqlBigInt i) = JNumber (number_of_i64 i)"
| "cql_to_json F (CqlDecimal b s) = JString (decimal_str F b s)"
| "cql_to_json F (CqlDouble f) = number_from_f64 f"
| "cql_to_json F (CqlFloat f) = number_from_f64 (f64_of_f32 f)"
| "cql_to_json F (CqlUuid u) = JString (uuid_str F u)"
| "cql_to_json F (CqlTimeuuid t) = JString (uuid_str F t)"
| "cql_to_json F (CqlTimestamp ts) = JNumber (number_of_i64 ts)"
| "cql_to_json F (CqlInet ip) = JString ip"
| "cql_to_json F (CqlBlob b) = JString (base64_str F b)"
| "cql_to_json F (CqlList xs) = JArray (map (cql_to_json F) xs)"
| "cql_to_json F (CqlSet xs) = JArray (map (cql_to_json F) xs)"
| "cql_to_json F (CqlMap pairs) =
     JObject (fold (\<lambda>e. bt_put (fst e) (snd e)) (map (\<lambda>e. (map_key F (fst e), cql_to_json F (snd e))) pairs) [])"
| "cql_to_json F (CqlUserDefinedType fs) =
     JObject (fold (\<lambda>e. bt_put (fst e) (snd e))
       (map (\<lambda>e. (fst e, case snd e of Some v \<Rightarrow> cql_to_json F v | None \<Rightarrow> JNull)) fs) [])"
| "cql_to_json F (CqlTuple xs) =
     JArray (map (\<lambda>opt. case opt of Some v \<Rightarrow> cql_to_json F v | None \<Rightarrow> JNull) xs)"
| "cql_to_json F (CqlOther c t) = JString (debug_str F (CqlOther c t))"

section \<open>Rows\<close>

datatype operation_type =
    PreImage | RowUpdate | RowInsert | RowDelete | PartitionDelete
  | RowRangeDelInclLeft | RowRangeDelExclLeft | RowRangeDelInclRight | RowRangeDelExclRight
  | PostImage

record cdc_row =
  row_operation :: operation_type
  row_stream_id :: string \<comment> \<open>\<open>stream_id.to_string()\<close>\<close>
  row_time :: uuid
  row_batch_seq_no :: i32
  row_ttl :: "i64 option"
  get_value :: "string \<Rightarrow> cql_value option"
  collection_exists :: "string \<Rightarrow> bool"
  is_value_deleted :: "string \<Rightarrow> bool"
  get_deleted_elements :: "string \<Rightarrow> cql_value list"
  non_cdc_columns :: "string list"

record serialized_row =
  payload_json :: string
  collection_deltas :: "collection_delta list"

definition cdc_meta :: "formats \<Rightarrow> cdc_row \<Rightarrow> obj" where
  "cdc_meta F row =
     (let doc = bt_put ''_cdc_batch_seq'' (JNumber (number_of_i64 (scast (row_batch_seq_no row))))
                 (bt_put ''_cdc_time'' (JString (uuid_str F (row_time row)))
                   (bt_put ''_cdc_stream_id'' (JString (row_stream_id row)) []))
      in case row_ttl row of
           Some ttl \<Rightarrow> bt_put ''_cdc_ttl'' (JNumber (number_of_i64 ttl)) doc
         | None \<Rightarrow> doc)"

definition delta_of_column :: "serde \<Rightarrow> formats \<Rightarrow> cdc_row \<Rightarrow> string \<Rightarrow> collection_delta" where
  "delta_of_column S F row column_name =
     \<lparr>column = column_name,
      tombstoned = is_value_deleted row column_name,
      added_elements_json =
        (case get_value row column_name of
           Some v \<Rightarrow> to_string S (cql_to_json F v) | None \<Rightarrow> []),
      deleted_elements_json =
        (if get_deleted_elements row column_name = [] then []
         else to_string S (JArray (map (cql_to_json F) (get_deleted_elements row column_name))))\<rparr>"

fun serialize_columns ::
  "serde \<Rightarrow> formats \<Rightarrow> cdc_row \<Rightarrow> string list \<Rightarrow> obj \<Rightarrow> collection_delta list \<Rightarrow>
   obj \<times> collection_delta list" where
  "serialize_columns S F row [] doc deltas = (doc, deltas)"
| "serialize_columns S F row (column_name # columns) doc deltas =
     (if collection_exists row column_name then
        let d = delta_of_column S F row column_name
        in if tombstoned d \<or> added_elements_json d \<noteq> [] \<or> deleted_elements_json d \<noteq> []
           then serialize_columns S F row columns doc (deltas @ [d])
           else serialize_columns S F row columns doc deltas
      else case get_value row column_name of
        Some v \<Rightarrow> serialize_columns S F row columns (bt_put column_name (cql_to_json F v) doc) deltas
      | None \<Rightarrow> serialize_columns S F row columns doc deltas)"

definition serialize_cdc_row :: "serde \<Rightarrow> formats \<Rightarrow> cdc_row \<Rightarrow> serialized_row" where
  "serialize_cdc_row S F row =
     (case serialize_columns S F row (non_cdc_columns row) (cdc_meta F row) [] of
        (doc, deltas) \<Rightarrow> \<lparr>payload_json = to_string S (JObject doc), collection_deltas = deltas\<rparr>)"

fun postimage_columns :: "formats \<Rightarrow> cdc_row \<Rightarrow> string list \<Rightarrow> obj \<Rightarrow> obj" where
  "postimage_columns F row [] doc = doc"
| "postimage_columns F row (column_name # columns) doc =
     (case get_value row column_name of
        Some v \<Rightarrow> postimage_columns F row columns (bt_put column_name (cql_to_json F v) doc)
      | None \<Rightarrow> postimage_columns F row columns doc)"

definition serialize_postimage_to_json :: "serde \<Rightarrow> formats \<Rightarrow> cdc_row \<Rightarrow> string" where
  "serialize_postimage_to_json S F row =
     to_string S (JObject (postimage_columns F row (non_cdc_columns row) (cdc_meta F row)))"

text \<open>Microseconds, in \<open>u64\<close>.\<close>

definition extract_writetime_from_timeuuid :: "formats \<Rightarrow> uuid \<Rightarrow> string + u64" where
  "extract_writetime_from_timeuuid F t =
     (case uuid_unix F t of
        None \<Rightarrow> Inl ''Not a time-based UUID''
      | Some (secs, nanos) \<Rightarrow> Inr (secs * 1000000 + ucast nanos div 1000))"

section \<open>Target node\<close>

text \<open>\<open>Hash for str\<close> feeds the bytes and then the byte \<open>0xFF\<close>; absent columns feed nothing.\<close>

definition hashed_bytes :: "formats \<Rightarrow> cdc_row \<Rightarrow> string list \<Rightarrow> string" where
  "hashed_bytes F row pk_names =
     concat (map (\<lambda>col. case get_value row col of
        Some v \<Rightarrow> display_str F v @ [CHR 0xFF] | None \<Rightarrow> []) pk_names)"

text \<open>None: the panic of a remainder by zero.\<close>

definition get_target_node_id :: "formats \<Rightarrow> cdc_row \<Rightarrow> string list \<Rightarrow> nat \<Rightarrow> nat option" where
  "get_target_node_id F row pk_names n_search_nodes =
     (if n_search_nodes = 0 then None
      else Some (unat (xx_hash64 F (hashed_bytes F row pk_names)) mod n_search_nodes))"

section \<open>Table keys\<close>

record clustering_key_column =
  ck_name :: string
  cql_type :: string

record table_key_info =
  partition_key_columns :: "string list"
  full_primary_key_columns :: "string list"
  clustering_key_columns :: "clustering_key_column list"

text \<open>From the rows \<open>(column_name, position, kind, type)\<close> of \<open>system_schema.columns\<close>;
  \<open>sort_by_key\<close> is stable.\<close>

definition position_cmp :: "i32 \<times> 'a \<Rightarrow> i32 \<times> 'a \<Rightarrow> ordering" where
  "position_cmp a b = cmp_of (sint (fst a)) (sint (fst b))"

definition table_key_info_of :: "(string \<times> i32 \<times> string \<times> string) list \<Rightarrow> table_key_info" where
  "table_key_info_of rows =
     (let partition_keys = sort_by position_cmp
            (map (\<lambda>(name, pos, kind, ty). (pos, name)) (filter (\<lambda>(name, pos, kind, ty). kind = ''partition_key'') rows));
          clustering_keys = sort_by position_cmp
            (map (\<lambda>(name, pos, kind, ty). (pos, name, ty)) (filter (\<lambda>(name, pos, kind, ty). kind \<noteq> ''partition_key'') rows));
          pk_names = map snd partition_keys;
          ck_names = map (fst \<circ> snd) clustering_keys
      in \<lparr>partition_key_columns = pk_names,
          full_primary_key_columns = pk_names @ ck_names,
          clustering_key_columns =
            map (\<lambda>(_, name, ty). \<lparr>ck_name = name, cql_type = ty\<rparr>) clustering_keys\<rparr>)"

section \<open>Comparing key strings\<close>

definition compare_parsed :: "('a \<Rightarrow> 'a \<Rightarrow> ordering) \<Rightarrow> (string \<Rightarrow> 'a option) \<Rightarrow> string \<Rightarrow> string \<Rightarrow> ordering" where
  "compare_parsed cmp parse a b =
     (case (parse a, parse b) of (Some va, Some vb) \<Rightarrow> cmp va vb | _ \<Rightarrow> cmp_of a b)"

definition compare_cql_values :: "formats \<Rightarrow> string \<Rightarrow> string \<Rightarrow> string \<Rightarrow> ordering" where
  "compare_cql_values F a b cql_ty =
     (let ty = to_lowercase cql_ty
      in if ty \<in> {''int'', ''varint'', ''smallint'', ''tinyint''} then compare_parsed cmp_of parse_i64 a b
         else if ty \<in> {''bigint'', ''counter''} then compare_parsed cmp_of parse_i64 a b
         else if ty = ''float'' then compare_parsed f32_total_cmp (f32_parse F) a b
         else if ty = ''double'' then compare_parsed f64_total_cmp (f64_parse F) a b
         else if ty = ''timestamp'' then compare_parsed cmp_of parse_i64 a b
         else cmp_of a b)"

end
