(* ===== verification/Batch_Service.thy ===== *)
theory Batch_Service
  imports Index
begin

text \<open>
  The ingestor's batch service (\<open>ingestor/src/batch/service.rs\<close>): it buffers serialised items,
  groups them by target node on a flush, sends each group with bounded retries and exponential
  backoff, and keeps the backpressure flag. The buffer and the flag live behind mutexes, so one
  access is one atomic step; \<open>flush\<close> is \<open>take_buffer\<close> followed by \<open>deliver\<close>. The network is a
  \<open>transport\<close> over an unknown state \<open>'n\<close>, the encoding of an item a \<open>item_codec\<close> (derived by
  \<open>serde\<close>), and the iteration order of the \<open>AHashMap\<close> of groups a function \<open>iter\<close>.
\<close>

section \<open>Items\<close>

record batch_item =
  target_node :: string
  bi_id :: string
  bi_op_type :: i32
  bi_writetime :: u64
  bi_cdc_ttl :: "i64 option"
  bi_payload_json :: string
  bi_collection_deltas :: "collection_delta list"
  bi_partition_key :: "string option"

record item_codec =
  item_to_string :: "batch_item \<Rightarrow> string"
  item_from_str :: "string \<Rightarrow> batch_item option"

definition codec_laws :: "item_codec \<Rightarrow> bool" where
  "codec_laws C = (\<forall>x. item_from_str C (item_to_string C x) = Some x)"

definition operation_of :: "batch_item \<Rightarrow> index_operation" where
  "operation_of x =
     \<lparr>op_id = bi_id x, op_op_type = bi_op_type x, op_writetime = bi_writetime x,
      op_cdc_ttl = bi_cdc_ttl x, op_payload_json = bi_payload_json x,
      op_collection_deltas = bi_collection_deltas x, op_partition_key = bi_partition_key x\<rparr>"

section \<open>State\<close>

record service =
  batch_limit :: nat
  buffer :: "string list"
  flush_interval_ms :: u64
  max_retry_attempts :: u32
  retry_backoff_ms :: u64
  last_flush_failed :: bool
  svc_table_name :: string

definition new_service :: "string \<Rightarrow> service" where
  "new_service table_name =
     \<lparr>batch_limit = 250, buffer = [], flush_interval_ms = 500, max_retry_attempts = 3,
      retry_backoff_ms = 100, last_flush_failed = False, svc_table_name = table_name\<rparr>"

definition is_backpressure_active :: "service \<Rightarrow> bool" where
  "is_backpressure_active svc = last_flush_failed svc"

definition clear_backpressure :: "service \<Rightarrow> service" where
  "clear_backpressure svc = svc\<lparr>last_flush_failed := False\<rparr>"

definition set_backpressure :: "service \<Rightarrow> service" where
  "set_backpressure svc = svc\<lparr>last_flush_failed := True\<rparr>"

record flush_error =
  failed_nodes :: "string list"
  message :: string

text \<open>The parts of the text \<open>BatchSendError\<close> carries to the log.\<close>

record send_error =
  send_attempts :: u32
  send_last_error :: "string option"

section \<open>Sending\<close>

record 'n transport =
  connect_to :: "string \<Rightarrow> 'n \<Rightarrow> 'n \<times> (string + unit)"
  call_index_batch :: "string \<Rightarrow> index_operation list \<Rightarrow> 'n \<Rightarrow> 'n \<times> (string + index_batch_response)"

definition node_address :: "string \<Rightarrow> string" where
  "node_address target = (if \<not> starts_with ''http'' target then ''http://'' @ target else target)"

definition try_send_batch ::
  "'n transport \<Rightarrow> string \<Rightarrow> index_operation list \<Rightarrow> 'n \<Rightarrow> 'n \<times> (string + index_batch_response)" where
  "try_send_batch X address operations n =
     (case connect_to X address n of
        (n1, Inr _) \<Rightarrow>
          (case call_index_batch X address operations n1 of
             (n2, Inr response) \<Rightarrow> (n2, Inr response)
           | (n2, Inl e) \<Rightarrow> (n2, Inl (''gRPC error: '' @ e)))
      | (n1, Inl e) \<Rightarrow> (n1, Inl (''Connection error: '' @ e)))"

definition backoff_ms :: "u64 \<Rightarrow> nat \<Rightarrow> u64" where
  "backoff_ms base attempt = base * push_bit (attempt mod 64) 1"

text \<open>The loop \<open>for attempt in 0..max\<close>, with \<open>left\<close> attempts to go; the pauses slept are returned.
  A response is returned as it is, complete or partial.\<close>

fun retry_loop ::
  "'n transport \<Rightarrow> string \<Rightarrow> index_operation list \<Rightarrow> u32 \<Rightarrow> u64 \<Rightarrow> nat \<Rightarrow> string option \<Rightarrow> 'n \<Rightarrow>
   'n \<times> u64 list \<times> (send_error + index_batch_response)" where
  "retry_loop X address operations max_attempts base 0 last_error n =
     (n, [], Inl \<lparr>send_attempts = max_attempts, send_last_error = last_error\<rparr>)"
| "retry_loop X address operations max_attempts base (Suc left) last_error n =
     (case try_send_batch X address operations n of
        (n', Inr response) \<Rightarrow> (n', [], Inr response)
      | (n', Inl e) \<Rightarrow>
          let attempt = unat max_attempts - Suc left;
              pause = (if attempt < unat max_attempts - 1 then [backoff_ms base attempt] else [])
          in case retry_loop X address operations max_attempts base left (Some e) n' of
               (n'', pauses, res) \<Rightarrow> (n'', pause @ pauses, res))"

definition send_batch_with_retry ::
  "'n transport \<Rightarrow> service \<Rightarrow> string \<Rightarrow> index_operation list \<Rightarrow> 'n \<Rightarrow>
   'n \<times> u64 list \<times> (send_error + index_batch_response)" where
  "send_batch_with_retry X svc target operations n =
     retry_loop X (node_address target) operations (max_retry_attempts svc) (retry_backoff_ms svc)
       (unat (max_retry_attempts svc)) None n"

section \<open>Flushing\<close>

type_synonym groups = "(string \<times> index_operation list) list"

text \<open>\<open>node_batches.entry(target).or_default().push(operation)\<close>.\<close>

definition push_group :: "string \<Rightarrow> index_operation \<Rightarrow> groups \<Rightarrow> groups" where
  "push_group t op m = hm_put t ((case hm_get m t of None \<Rightarrow> [] | Some ops \<Rightarrow> ops) @ [op]) m"

fun group_items :: "item_codec \<Rightarrow> string list \<Rightarrow> groups \<Rightarrow> groups" where
  "group_items C [] m = m"
| "group_items C (item # items) m =
     (case item_from_str C item of
        Some x \<Rightarrow> group_items C items (push_group (target_node x) (operation_of x) m)
      | None \<Rightarrow> group_items C items m)"

definition max_writetime :: "index_operation list \<Rightarrow> u64 option" where
  "max_writetime operations =
     (case map op_writetime operations of [] \<Rightarrow> None | w # ws \<Rightarrow> Some (fold max ws w))"

fun send_groups ::
  "'n transport \<Rightarrow> service \<Rightarrow> groups \<Rightarrow> 'n \<Rightarrow> 'n \<times> string list \<times> u64 list" where
  "send_groups X svc [] n = (n, [], [])"
| "send_groups X svc ((target, operations) # rest) n =
     (case send_batch_with_retry X svc target operations n of
        (n', _, res) \<Rightarrow>
          (case send_groups X svc rest n' of
             (n'', failed, node_max_writetimes) \<Rightarrow>
               (case res of
                  Inr response \<Rightarrow>
                    if processed_count response + skipped_count response < of_nat (length operations)
                    then (n'', target # failed, node_max_writetimes)
                    else (n'', failed,
                      (case max_writetime operations of Some w \<Rightarrow> [w] | None \<Rightarrow> []) @ node_max_writetimes)
                | Inl e \<Rightarrow> (n'', target # failed, node_max_writetimes))))"

definition take_buffer :: "service \<Rightarrow> string list \<times> service" where
  "take_buffer svc = (buffer svc, svc\<lparr>buffer := []\<rparr>)"

definition deliver ::
  "item_codec \<Rightarrow> (groups \<Rightarrow> groups) \<Rightarrow> 'n transport \<Rightarrow> service \<Rightarrow> string list \<Rightarrow> 'n \<Rightarrow>
   'n \<times> (flush_error + unit)" where
  "deliver C iter X svc items n =
     (case send_groups X svc (iter (group_items C items [])) n of
        (n', failed, _) \<Rightarrow>
          if failed \<noteq> [] then
            (n', Inl \<lparr>failed_nodes = failed,
              message = ''Failed to flush batches to '' @ show_nat (length failed) @ '' nodes''\<rparr>)
          else (n', Inr ()))"

definition flush ::
  "item_codec \<Rightarrow> (groups \<Rightarrow> groups) \<Rightarrow> 'n transport \<Rightarrow> service \<Rightarrow> 'n \<Rightarrow>
   service \<times> 'n \<times> (flush_error + unit)" where
  "flush C iter X svc n =
     (if buffer svc = [] then (svc, n, Inr ())
      else case take_buffer svc of
        (items_to_process, svc') \<Rightarrow>
          (case deliver C iter X svc' items_to_process n of (n', res) \<Rightarrow> (svc', n', res)))"

section \<open>\<open>add\<close> and the ticker\<close>

text \<open>\<open>From<anyhow::Error>\<close> drops the failed nodes; the text of the error is its outermost context.\<close>

definition add ::
  "item_codec \<Rightarrow> (groups \<Rightarrow> groups) \<Rightarrow> 'n transport \<Rightarrow> string \<Rightarrow> service \<Rightarrow> 'n \<Rightarrow>
   service \<times> 'n \<times> (flush_error + unit)" where
  "add C iter X item svc n =
     (if is_backpressure_active svc then
        (svc, n, Inl \<lparr>failed_nodes = [],
          message = ''Backpressure active due to previous batch failure''\<rparr>)
      else
        let svc1 = svc\<lparr>buffer := buffer svc @ [item]\<rparr>;
            should_flush = (batch_limit svc \<le> length (buffer svc1))
        in if should_flush then
             (case flush C iter X svc1 n of
                (svc2, n', Inr _) \<Rightarrow> (svc2, n', Inr ())
              | (svc2, n', Inl _) \<Rightarrow>
                  (svc2, n', Inl \<lparr>failed_nodes = [],
                    message = ''Batch flush failed: Failedd to flush the buffer to the nodes''\<rparr>))
           else (svc1, n, Inr ()))"

definition ticker_round ::
  "item_codec \<Rightarrow> (groups \<Rightarrow> groups) \<Rightarrow> 'n transport \<Rightarrow> service \<Rightarrow> 'n \<Rightarrow> service \<times> 'n" where
  "ticker_round C iter X svc n =
     (case flush C iter X svc n of
        (svc', n', Inl e) \<Rightarrow> (set_backpressure svc', n')
      | (svc', n', Inr _) \<Rightarrow> (clear_backpressure svc', n'))"

end
