(* ===== verification/Router.thy ===== *)
theory Router
  imports Cql Batch_Service
begin

text \<open>
  Routing in the ingestor (\<open>router/core.rs\<close>, \<open>router/common.rs\<close>, \<open>cdc/consumer.rs\<close> and the node table
  built in \<open>main.rs\<close>): what a CDC row asks for, how a row becomes a batch item on the node of its
  partition, how a pair of range-delete rows becomes single deletes, and the per-stream consumer
  with its pending start bound. The driver's rows, the network and the batch service's parameters
  come in an \<open>ingest_env\<close>; the state threaded through is the shared batch service and the network.
\<close>

section \<open>State and errors\<close>

record 'n ingest_env =
  env_serde :: serde
  env_formats :: formats
  env_codec :: item_codec
  env_iter :: "groups \<Rightarrow> groups"
  env_transport :: "'n transport"
  env_list_ids :: "string \<Rightarrow> string \<Rightarrow> 'n \<Rightarrow> 'n \<times> (string + string list)"
    \<comment> \<open>\<open>list_document_ids_by_partition_key\<close> at an address; an error of the connection or the call\<close>

record router =
  node_info :: "(nat \<times> string) list"
  pk_columns :: "string list"
  full_pk_columns :: "string list"
  ck_columns :: "clustering_key_column list"
  table_name :: string

datatype ingest_error =
    FlushFailed flush_error \<comment> \<open>backpressure active and flush failed\<close>
  | AddFailed flush_error \<comment> \<open>failed to add batch item\<close>
  | ListFailed string
  | BadTimeUuid string
  | NoMatchingStart
  | Panic string

type_synonym 'n ingest_state = "service \<times> 'n"

text \<open>\<open>main\<close>: the sorted node addresses, numbered.\<close>

definition node_info_of :: "string list \<Rightarrow> (nat \<times> string) list" where
  "node_info_of search_nodes = enumerate 0 (sort search_nodes)"

text \<open>\<open>split_once('.')\<close> on the table argument.\<close>

definition parse_table_name :: "string \<Rightarrow> (string \<times> string) option" where
  "parse_table_name s = split_first (CHR ''.'') s"

definition new_router :: "(nat \<times> string) list \<Rightarrow> string \<Rightarrow> string \<Rightarrow> table_key_info \<Rightarrow> router" where
  "new_router nodes keyspace table key_info =
     \<lparr>node_info = nodes,
      pk_columns = partition_key_columns key_info,
      full_pk_columns = full_primary_key_columns key_info,
      ck_columns = clustering_key_columns key_info,
      table_name = keyspace @ ''.'' @ table\<rparr>"

section \<open>What a row asks for\<close>

datatype routing_action =
    Skip
  | RangeDeleteStart
  | RangeDeleteEnd
  | Forward op_type

definition determine :: "cdc_row \<Rightarrow> routing_action" where
  "determine row =
     (case row_operation row of
        PreImage \<Rightarrow> Skip
      | RowRangeDelInclLeft \<Rightarrow> RangeDeleteStart
      | RowRangeDelExclLeft \<Rightarrow> RangeDeleteStart
      | RowRangeDelInclRight \<Rightarrow> RangeDeleteEnd
      | RowRangeDelExclRight \<Rightarrow> RangeDeleteEnd
      | RowInsert \<Rightarrow> Forward OpUpsert
      | RowUpdate \<Rightarrow> Forward OpUpsert
      | PostImage \<Rightarrow> Forward OpUpsert
      | RowDelete \<Rightarrow> Forward OpDelete
      | PartitionDelete \<Rightarrow> Forward OpPartitionDelete)"

section \<open>Keys\<close>

definition key_part :: "formats \<Rightarrow> cdc_row \<Rightarrow> string \<Rightarrow> string" where
  "key_part F row col = (case get_value row col of Some val \<Rightarrow> cql_value_to_key_string F val | None \<Rightarrow> ''null'')"

definition joined_key :: "formats \<Rightarrow> cdc_row \<Rightarrow> string list \<Rightarrow> string" where
  "joined_key F row columns = str_join '':'' (map (key_part F row) columns)"

definition ck_bounds :: "formats \<Rightarrow> router \<Rightarrow> cdc_row \<Rightarrow> string option list" where
  "ck_bounds F R row =
     map (\<lambda>c. map_option (cql_value_to_key_string F) (get_value row (ck_name c))) (ck_columns R)"

definition target_of :: "formats \<Rightarrow> router \<Rightarrow> cdc_row \<Rightarrow> ingest_error + string" where
  "target_of F R row =
     (case get_target_node_id F row (pk_columns R) (length (node_info R)) of
        None \<Rightarrow> Inl (Panic ''remainder by zero'')
      | Some i \<Rightarrow>
          (case hm_get (node_info R) i of
             None \<Rightarrow> Inl (Panic ''target_node_id not in node_info'')
           | Some node \<Rightarrow> Inr node))"

section \<open>Forwarding a row\<close>

definition enqueue_batch_item ::
  "'n ingest_env \<Rightarrow> batch_item \<Rightarrow> 'n ingest_state \<Rightarrow> 'n ingest_state \<times> (ingest_error + unit)" where
  "enqueue_batch_item E item st =
     (case add (env_codec E) (env_iter E) (env_transport E) (item_to_string (env_codec E) item) (fst st) (snd st) of
        (svc, n, Inr _) \<Rightarrow> ((svc, n), Inr ())
      | (svc, n, Inl e) \<Rightarrow> ((svc, n), Inl (AddFailed e)))"

definition flush_service :: "'n ingest_env \<Rightarrow> 'n ingest_state \<Rightarrow> 'n ingest_state \<times> (flush_error + unit)" where
  "flush_service E st =
     (case flush (env_codec E) (env_iter E) (env_transport E) (fst st) (snd st) of
        (svc, n, res) \<Rightarrow> ((svc, n), res))"

definition row_payload :: "'n ingest_env \<Rightarrow> cdc_row \<Rightarrow> op_type \<Rightarrow> string \<times> collection_delta list" where
  "row_payload E row op_type =
     (case op_type of
        OpUpsert \<Rightarrow>
          if row_operation row = PostImage
          then (serialize_postimage_to_json (env_serde E) (env_formats E) row, [])
          else let s = serialize_cdc_row (env_serde E) (env_formats E) row
               in (payload_json s, collection_deltas s)
      | _ \<Rightarrow> ([], []))"

definition forwarded_item ::
  "'n ingest_env \<Rightarrow> router \<Rightarrow> cdc_row \<Rightarrow> op_type \<Rightarrow> ingest_error + batch_item" where
  "forwarded_item E R row op_type =
     (case target_of (env_formats E) R row of
        Inl e \<Rightarrow> Inl e
      | Inr target \<Rightarrow>
          (case extract_writetime_from_timeuuid (env_formats E) (row_time row) of
             Inl e \<Rightarrow> Inl (BadTimeUuid e)
           | Inr writetime \<Rightarrow>
               let payload = row_payload E row op_type
               in Inr \<lparr>target_node = target,
                       bi_id = joined_key (env_formats E) row (full_pk_columns R),
                       bi_op_type = op_type_as_i32 op_type,
                       bi_writetime = writetime,
                       bi_cdc_ttl = row_ttl row,
                       bi_payload_json = fst payload,
                       bi_collection_deltas = snd payload,
                       bi_partition_key = Some (joined_key (env_formats E) row (pk_columns R))\<rparr>))"

definition route_forward ::
  "'n ingest_env \<Rightarrow> router \<Rightarrow> cdc_row \<Rightarrow> op_type \<Rightarrow> 'n ingest_state \<Rightarrow> 'n ingest_state \<times> (ingest_error + unit)" where
  "route_forward E R row op_type st =
     (case (if is_backpressure_active (fst st) then flush_service E st else (st, Inr ())) of
        (st1, Inl e) \<Rightarrow> (st1, Inl (FlushFailed e))
      | (st1, Inr _) \<Rightarrow>
          (case forwarded_item E R row op_type of
             Inl e \<Rightarrow> (st1, Inl e)
           | Inr item \<Rightarrow> enqueue_batch_item E item st1))"

section \<open>Range deletes\<close>

record pending_range_start =
  start_partition_key :: string
  start_target_node :: string
  start_ck_values :: "string option list"
  start_inclusive :: bool
  start_writetime :: u64

definition extract_range_delete_start ::
  "formats \<Rightarrow> router \<Rightarrow> cdc_row \<Rightarrow> ingest_error + pending_range_start" where
  "extract_range_delete_start F R row =
     (case target_of F R row of
        Inl e \<Rightarrow> Inl e
      | Inr target \<Rightarrow>
          (case extract_writetime_from_timeuuid F (row_time row) of
             Inl e \<Rightarrow> Inl (BadTimeUuid e)
           | Inr writetime \<Rightarrow>
               Inr \<lparr>start_partition_key = joined_key F row (pk_columns R),
                    start_target_node = target,
                    start_ck_values = ck_bounds F R row,
                    start_inclusive = (row_operation row = RowRangeDelInclLeft),
                    start_writetime = writetime\<rparr>))"

definition above_start :: "formats \<Rightarrow> bool \<Rightarrow> string \<Rightarrow> string \<Rightarrow> string option \<Rightarrow> bool" where
  "above_start F incl ty v bound =
     (case bound of
        None \<Rightarrow> True
      | Some start_val \<Rightarrow>
          let cmp = compare_cql_values F v start_val ty
          in if incl then cmp \<noteq> Less else cmp = Greater)"

definition below_end :: "formats \<Rightarrow> bool \<Rightarrow> string \<Rightarrow> string \<Rightarrow> string option \<Rightarrow> bool" where
  "below_end F incl ty v bound =
     (case bound of
        None \<Rightarrow> True
      | Some end_val \<Rightarrow>
          let cmp = compare_cql_values F v end_val ty
          in if incl then cmp \<noteq> Greater else cmp = Less)"

text \<open>The loop over the clustering columns. The bound lists have one entry per column, both being
  \<open>ck_bounds\<close> of the same router, so the last equation is never reached.\<close>

fun ck_in_range ::
  "formats \<Rightarrow> bool \<Rightarrow> bool \<Rightarrow> clustering_key_column list \<Rightarrow> string list \<Rightarrow>
   string option list \<Rightarrow> string option list \<Rightarrow> bool" where
  "ck_in_range F si ei [] _ _ _ = True"
| "ck_in_range F si ei (c # cs) (v # vs) (s # ss) (t # ts) =
     (above_start F si (cql_type c) v s \<and> below_end F ei (cql_type c) v t \<and>
      ck_in_range F si ei cs vs ss ts)"
| "ck_in_range F si ei _ _ _ _ = False"

definition filter_doc_ids_by_ck_range ::
  "formats \<Rightarrow> router \<Rightarrow> string list \<Rightarrow> pending_range_start \<Rightarrow> string option list \<Rightarrow> bool \<Rightarrow> string list" where
  "filter_doc_ids_by_ck_range F R doc_ids start end_ck_values end_inclusive =
     filter (\<lambda>doc_id.
       let parts = str_split (CHR '':'') doc_id;
           pk_col_count = length (pk_columns R);
           ck_col_count = length (ck_columns R)
       in length parts = pk_col_count + ck_col_count \<and>
          ck_in_range F (start_inclusive start) end_inclusive (ck_columns R) (drop pk_col_count parts)
            (start_ck_values start) end_ck_values) doc_ids"

definition range_delete_item :: "pending_range_start \<Rightarrow> string \<Rightarrow> batch_item" where
  "range_delete_item start doc_id =
     \<lparr>target_node = start_target_node start, bi_id = doc_id, bi_op_type = op_type_as_i32 OpDelete,
      bi_writetime = start_writetime start, bi_cdc_ttl = None, bi_payload_json = [],
      bi_collection_deltas = [], bi_partition_key = Some (start_partition_key start)\<rparr>"

text \<open>\<open>for i in 0..FLUSH_RETRIES { if flush fails { warn } else { break } }\<close>.\<close>

fun flush_until_ok :: "'n ingest_env \<Rightarrow> nat \<Rightarrow> 'n ingest_state \<Rightarrow> 'n ingest_state" where
  "flush_until_ok E 0 st = st"
| "flush_until_ok E (Suc k) st =
     (case flush_service E st of
        (st', Inl e) \<Rightarrow> flush_until_ok E k st'
      | (st', Inr _) \<Rightarrow> st')"

fun enqueue_all :: "'n ingest_env \<Rightarrow> batch_item list \<Rightarrow> 'n ingest_state \<Rightarrow> 'n ingest_state \<times> (ingest_error + unit)" where
  "enqueue_all E [] st = (st, Inr ())"
| "enqueue_all E (item # items) st =
     (case enqueue_batch_item E item st of
        (st', Inl e) \<Rightarrow> (st', Inl e)
      | (st', Inr _) \<Rightarrow> enqueue_all E items st')"

definition commit_range_delete ::
  "'n ingest_env \<Rightarrow> router \<Rightarrow> pending_range_start \<Rightarrow> cdc_row \<Rightarrow> 'n ingest_state \<Rightarrow>
   'n ingest_state \<times> (ingest_error + unit)" where
  "commit_range_delete E R start row st =
     (let end_inclusive = (row_operation row = RowRangeDelInclRight);
          end_ck_values = ck_bounds (env_formats E) R row;
          st1 = flush_until_ok E 3 st
      in case env_list_ids E (node_address (start_target_node start)) (start_partition_key start) (snd st1) of
           (n, Inl e) \<Rightarrow> ((fst st1, n), Inl (ListFailed e))
         | (n, Inr all_doc_ids) \<Rightarrow>
             enqueue_all E
               (map (range_delete_item start)
                 (filter_doc_ids_by_ck_range (env_formats E) R all_doc_ids start end_ck_values end_inclusive))
               (fst st1, n))"

section \<open>The consumer of one stream\<close>

type_synonym consumer = "pending_range_start option"

definition new_consumer :: consumer where
  "new_consumer = None"

definition consume_cdc ::
  "'n ingest_env \<Rightarrow> router \<Rightarrow> cdc_row \<Rightarrow> consumer \<Rightarrow> 'n ingest_state \<Rightarrow>
   consumer \<times> 'n ingest_state \<times> (ingest_error + unit)" where
  "consume_cdc E R row held st =
     (case determine row of
        Skip \<Rightarrow> (held, st, Inr ())
      | RangeDeleteStart \<Rightarrow>
          (case extract_range_delete_start (env_formats E) R row of
             Inl e \<Rightarrow> (held, st, Inl e)
           | Inr start \<Rightarrow> (Some start, st, Inr ()))
      | RangeDeleteEnd \<Rightarrow>
          (case held of
             None \<Rightarrow> (None, st, Inl NoMatchingStart)
           | Some start \<Rightarrow>
               (case commit_range_delete E R start row st of (st', res) \<Rightarrow> (None, st', res)))
      | Forward op_type \<Rightarrow>
          (case route_forward E R row op_type st of (st', res) \<Rightarrow> (held, st', res)))"

section \<open>\<open>main\<close> of the ingestor\<close>

text \<open>\<open>key_info_of\<close> is the query for the table's key columns, which can fail.\<close>

definition start_ingestor ::
  "(string \<Rightarrow> string \<Rightarrow> string + table_key_info) \<Rightarrow> string list \<Rightarrow> string \<Rightarrow> string + service \<times> router" where
  "start_ingestor key_info_of search_nodes table_arg =
     (case parse_table_name table_arg of
        None \<Rightarrow> Inl (''Table name must be in format 'keyspace.table'' @ [CHR 0x27])
      | Some (keyspace, table) \<Rightarrow>
          let batch_service = new_service (keyspace @ ''.'' @ table)
          in case key_info_of keyspace table of
               Inl e \<Rightarrow> Inl e
             | Inr key_info \<Rightarrow> Inr (batch_service, new_router (node_info_of search_nodes) keyspace table key_info))"

text \<open>On \<open>ctrl_c\<close>: one last flush, whose result is logged.\<close>

definition shutdown_ingestor :: "'n ingest_env \<Rightarrow> 'n ingest_state \<Rightarrow> 'n ingest_state \<times> (flush_error + unit)" where
  "shutdown_ingestor E st = flush_service E st"

end
