(* ===== verification/Start_Up.thy ===== *)
theory Start_Up
  imports Engine_Spec Engine_Faults Router
begin

text \<open>
  How the processes start and stop. A node (\<open>node/src/main.rs\<close>, \<open>Engine::new\<close>) opens the index of its port
  and serves it until it is told to stop; what was not committed by then is not in the index it opens next.
  The ingestor reads its intervals from arguments whose defaults depend on the build. Directories, files and
  the index on them are Tantivy and the file system, an argument (\<open>opener\<close>) with its laws.
\<close>

section \<open>The schema\<close>

datatype field_flag = STRING | STORED | FAST

record json_options =
  json_stored :: bool
  json_fast :: bool \<comment> \<open>\<open>set_fast(None)\<close>: numeric leaves become fast fields\<close>
  json_tokenizer :: string
  json_positions :: bool \<comment> \<open>\<open>WithFreqsAndPositions\<close>\<close>

datatype field_type =
    TextField "field_flag list"
  | I64Field "field_flag list"
  | JsonField json_options

definition index_schema :: "(string \<times> field_type) list" where
  "index_schema =
     [(''id'', TextField [STRING, STORED]),
      (''partition_key'', TextField [STRING, STORED]),
      (''expires_at'', I64Field [FAST, STORED]),
      (''writetime'', I64Field [FAST, STORED]),
      (''document'', JsonField \<lparr>json_stored = True, json_fast = True, json_tokenizer = ''default'', json_positions = True\<rparr>)]"

text \<open>The wrapper of an upsert has a value for every field of the schema and for nothing else.\<close>

lemma wrapper_fits_schema:
  "\<exists>m. wrapper_of d = JObject m \<and> mset (map fst m) = mset (map fst index_schema)"
  by (simp add: wrapper_of_def full_doc_wrapper_def index_schema_def)

section \<open>\<open>Engine::new\<close>\<close>

definition writer_buffer_size :: nat where
  "writer_buffer_size = 50000000"

datatype reload_policy = OnCommitWithDelay

record adaptive_config =
  commit_interval_secs :: u64

definition default_adaptive_config :: adaptive_config where
  "default_adaptive_config = \<lparr>commit_interval_secs = 5\<rparr>"

record ('k, 'i, 'w) opener =
  create_dir_all :: "string \<Rightarrow> 'k \<Rightarrow> 'k \<times> (string + unit)"
  open_directory :: "string \<Rightarrow> 'k \<Rightarrow> string + unit"
  open_or_create :: "string \<Rightarrow> (string \<times> field_type) list \<Rightarrow> 'k \<Rightarrow> 'k \<times> (string + 'i)"
  index_writer :: "nat \<Rightarrow> 'i \<Rightarrow> string + 'w"
  index_reader :: "reload_policy \<Rightarrow> 'i \<Rightarrow> string + unit"

text \<open>Each \<open>?\<close> is an early return; the tasks it spawns are \<open>commit_tick\<close> and \<open>prune_tick\<close>.\<close>

definition open_engine ::
  "('k, 'i, 'w) opener \<Rightarrow> string \<Rightarrow> 'k \<Rightarrow> 'k \<times> (string + 'w engine)" where
  "open_engine K path k =
     (case create_dir_all K path k of
        (k1, Inl err) \<Rightarrow> (k1, Inl ''Failed to create index directory'')
      | (k1, Inr _) \<Rightarrow>
          (case open_directory K path k1 of
             Inl err \<Rightarrow> (k1, Inl err)
           | Inr _ \<Rightarrow>
               (case open_or_create K path index_schema k1 of
                  (k2, Inl err) \<Rightarrow> (k2, Inl err)
                | (k2, Inr i) \<Rightarrow>
                    (case index_writer K writer_buffer_size i of
                       Inl err \<Rightarrow> (k2, Inl err)
                     | Inr w \<Rightarrow>
                         (case index_reader K OnCommitWithDelay i of
                            Inl err \<Rightarrow> (k2, Inl err)
                          | Inr _ \<Rightarrow> (k2, Inr (new_engine w)))))))"

section \<open>Arguments\<close>

datatype build = Debug | Release

definition parse_unsigned :: "nat \<Rightarrow> string \<Rightarrow> nat option" where
  "parse_unsigned largest s =
     (case (case s of [] \<Rightarrow> None | c # cs \<Rightarrow> if c = CHR ''+'' then parse_nat cs else parse_nat s) of
        None \<Rightarrow> None
      | Some n \<Rightarrow> if n \<le> largest then Some n else None)"

definition parse_u64 :: "string \<Rightarrow> u64 option" where
  "parse_u64 s = map_option of_nat (parse_unsigned (2 ^ 64 - 1) s)"

definition parse_u16 :: "string \<Rightarrow> u16 option" where
  "parse_u16 s = map_option of_nat (parse_unsigned (2 ^ 16 - 1) s)"

text \<open>The texts given on the command line, by option; a list option is given once, its values separated by commas,
  and a default is read like a given text. A missing, unknown or unreadable argument ends the process (None).\<close>

type_synonym given = "string \<Rightarrow> string option"

definition text_arg :: "given \<Rightarrow> string \<Rightarrow> string \<Rightarrow> string" where
  "text_arg given option default_text = (case given option of None \<Rightarrow> default_text | Some s \<Rightarrow> s)"

definition u64_arg :: "given \<Rightarrow> string \<Rightarrow> string \<Rightarrow> u64 option" where
  "u64_arg given option default_text = parse_u64 (text_arg given option default_text)"

definition u16_arg :: "given \<Rightarrow> string \<Rightarrow> string \<Rightarrow> u16 option" where
  "u16_arg given option default_text = parse_u16 (text_arg given option default_text)"

definition list_arg :: "given \<Rightarrow> string \<Rightarrow> string list option" where
  "list_arg given option = map_option (str_split (CHR '','')) (given option)"

text \<open>An option that only debug builds have: a release build refuses it.\<close>

definition debug_arg :: "build \<Rightarrow> (string \<Rightarrow> 'v option) \<Rightarrow> given \<Rightarrow> string \<Rightarrow> 'v option option" where
  "debug_arg b parse given option =
     (case (b, given option) of
        (_, None) \<Rightarrow> Some None
      | (Release, Some _) \<Rightarrow> None
      | (Debug, Some s) \<Rightarrow> map_option Some (parse s))"

section \<open>The test event layer\<close>

text \<open>Addresses and sockets of the standard library.\<close>

record 'a sockets =
  parse_socket_addr :: "string \<Rightarrow> 'a option"
  bind_udp :: "string \<Rightarrow> string + unit"

definition connect_layer :: "'a sockets \<Rightarrow> u16 \<Rightarrow> string + 'a" where
  "connect_layer P port =
     (case parse_socket_addr P (''127.0.0.1:'' @ show_nat (unat port)) of
        None \<Rightarrow> Inl ''parsing test event socket address''
      | Some target \<Rightarrow>
          (case bind_udp P ''0.0.0.0:0'' of
             Inl err \<Rightarrow> Inl ''binding test event socket''
           | Inr _ \<Rightarrow> Inr target))"

definition test_layer :: "'a sockets \<Rightarrow> u16 option \<Rightarrow> string + 'a option" where
  "test_layer P test_event_port =
     (case test_event_port of
        None \<Rightarrow> Inr None
      | Some port \<Rightarrow>
          (case connect_layer P port of
             Inl err \<Rightarrow> Inl ''connecting test event layer''
           | Inr target \<Rightarrow> Inr (Some target)))"

section \<open>\<open>main\<close> of a node\<close>

record node_args =
  node_port :: u16
  node_host :: string
  node_commit_interval_secs :: u64
  node_test_event_port :: "u16 option"

definition parse_node_args :: "build \<Rightarrow> given \<Rightarrow> node_args option" where
  "parse_node_args b given =
     Option.bind (u16_arg given ''port'' ''10000'') (\<lambda>port.
     Option.bind (u64_arg given ''commit-interval-secs'' ''5'') (\<lambda>secs.
     Option.bind (debug_arg b parse_u16 given ''test-event-port'') (\<lambda>events.
       Some \<lparr>node_port = port, node_host = text_arg given ''address'' ''[::1]'',
             node_commit_interval_secs = secs, node_test_event_port = events\<rparr>)))"

definition index_path :: "node_args \<Rightarrow> string" where
  "index_path args = ''./index-'' @ show_nat (unat (node_port args))"

datatype start_error =
    BadNodeArguments
  | NoTestLayer string
  | BadAddress \<comment> \<open>a panic: \<open>parse().unwrap()\<close>\<close>
  | NotOpened string

record ('a, 'w) running_node =
  serves_at :: 'a
  node_config :: adaptive_config
  node_engine :: "'w engine"

definition start_node ::
  "'a sockets \<Rightarrow> ('k, 'i, 'w) opener \<Rightarrow> build \<Rightarrow> given \<Rightarrow> 'k \<Rightarrow> 'k \<times> (start_error + ('a, 'w) running_node)" where
  "start_node P K b given k =
     (case parse_node_args b given of
        None \<Rightarrow> (k, Inl BadNodeArguments)
      | Some args \<Rightarrow>
          (case test_layer P (node_test_event_port args) of
             Inl err \<Rightarrow> (k, Inl (NoTestLayer err))
           | Inr _ \<Rightarrow>
               (case parse_socket_addr P (node_host args @ '':'' @ show_nat (unat (node_port args))) of
                  None \<Rightarrow> (k, Inl BadAddress)
                | Some addr \<Rightarrow>
                    (case open_engine K (index_path args) k of
                       (k', Inl err) \<Rightarrow> (k', Inl (NotOpened err))
                     | (k', Inr e) \<Rightarrow>
                         (k', Inr \<lparr>serves_at = addr,
                                   node_config = \<lparr>commit_interval_secs = node_commit_interval_secs args\<rparr>,
                                   node_engine = e\<rparr>)))))"

section \<open>What is on disk\<close>

text \<open>A directory holds the documents of its last commit. Opening keeps them, and a writer over an opened index
  starts from them.\<close>

record ('k, 'i, 'd) disk_view =
  on_disk :: "string \<Rightarrow> 'k \<Rightarrow> 'd list"
  opened_docs :: "'i \<Rightarrow> 'd list"

definition opening_laws :: "('k, 'i, 'w) opener \<Rightarrow> ('k, 'i, 'd) disk_view \<Rightarrow> ('w, 'd) index_view \<Rightarrow> bool" where
  "opening_laws K D V =
    ((\<forall>path k k' r. create_dir_all K path k = (k', r) \<longrightarrow> on_disk D path k' = on_disk D path k) \<and>
     (\<forall>path k k' i. open_or_create K path index_schema k = (k', Inr i) \<longrightarrow>
        opened_docs D i = on_disk D path k \<and> on_disk D path k' = on_disk D path k) \<and>
     (\<forall>b i w. index_writer K b i = Inr w \<longrightarrow>
        pending V w = opened_docs D i \<and> committed V w = opened_docs D i \<and> visible V w = opened_docs D i))"

lemma open_engine_ok:
  assumes "opening_laws K D V" "open_engine K path k = (k', Inr e)"
  obtains w where "e = new_engine w" "pending V w = on_disk D path k" "committed V w = on_disk D path k"
    "visible V w = on_disk D path k" "on_disk D path k' = on_disk D path k"
proof -
  obtain k1 i w where run: "create_dir_all K path k = (k1, Inr ())" "open_or_create K path index_schema k1 = (k', Inr i)"
    "index_writer K writer_buffer_size i = Inr w" "e = new_engine w"
    using assms(2) by (auto simp: open_engine_def split: prod.splits sum.splits)
  show thesis
    using assms(1) run unfolding opening_laws_def by (intro that [of w]) metis+
qed

text \<open>A store after its process has stopped and started again.\<close>

definition store_restart :: "store \<Rightarrow> store" where
  "store_restart st =
     st\<lparr>cached := Map.empty, next_docs := last_docs st, shown := last_docs st, generation := 0\<rparr>"

lemma restarted:
  assumes "opening_laws K D V" "engine_sound S T V e" "on_disk D path k = committed V (writer e)"
    and "open_engine K path k = (k', Inr e')"
  shows "engine_inv S T V e' \<and> \<not> poisoned e' \<and> store_of S T V e' = store_restart (store_of S T V e)"
proof -
  obtain w where w: "e' = new_engine w" "pending V w = committed V (writer e)" "committed V w = committed V (writer e)"
    "visible V w = committed V (writer e)"
    using open_engine_ok [OF assms(1,4)] assms(3) by metis
  have "hm_get [] = Map.empty" by (rule ext) simp
  then show ?thesis
    using assms(2)
    by (simp add: w engine_sound_def inv_defs new_engine_def store_of_def store_restart_def)
qed

section \<open>\<open>main\<close> of the ingestor\<close>

definition safety_interval_default :: "build \<Rightarrow> string" where
  "safety_interval_default b = (case b of Debug \<Rightarrow> ''500'' | Release \<Rightarrow> ''30_000'')"

definition sleep_interval_default :: "build \<Rightarrow> string" where
  "sleep_interval_default b = (case b of Debug \<Rightarrow> ''500'' | Release \<Rightarrow> ''10_000'')"

record ingestor_args =
  arg_scylla_uri :: "string list"
  arg_table_name :: string
  arg_search_nodes :: "string list"
  arg_safety_interval :: u64
  arg_sleep_interval :: u64
  arg_test_event_port :: "u16 option"
  arg_start_timestamp_micros :: "int option"

definition parse_ingestor_args :: "build \<Rightarrow> given \<Rightarrow> ingestor_args option" where
  "parse_ingestor_args b given =
     Option.bind (list_arg given ''scylla-uri'') (\<lambda>uri.
     Option.bind (given ''table-name'') (\<lambda>table.
     Option.bind (list_arg given ''search-nodes'') (\<lambda>nodes.
     Option.bind (u64_arg given ''safety-interval'' (safety_interval_default b)) (\<lambda>safety.
     Option.bind (u64_arg given ''sleep-interval'' (sleep_interval_default b)) (\<lambda>sleep.
     Option.bind (debug_arg b parse_u16 given ''test-event-port'') (\<lambda>events.
     Option.bind (debug_arg b parse_i64 given ''start-timestamp-micros'') (\<lambda>micros.
       Some \<lparr>arg_scylla_uri = uri, arg_table_name = table, arg_search_nodes = nodes,
             arg_safety_interval = safety, arg_sleep_interval = sleep,
             arg_test_event_port = events, arg_start_timestamp_micros = micros\<rparr>)))))))"

text \<open>Durations since the epoch in nanoseconds; \<open>now\<close> is after the epoch and fits one.\<close>

definition start_timestamp :: "int \<Rightarrow> ingestor_args \<Rightarrow> int" where
  "start_timestamp now args =
     (case arg_start_timestamp_micros args of Some micros \<Rightarrow> 1000 * micros | None \<Rightarrow> now)"

text \<open>What the CDC reader is built with, and the calls to the database's libraries, which can fail.\<close>

record reader_config =
  cdc_keyspace :: string
  cdc_table :: string
  safety_interval_ms :: u64
  sleep_interval_ms :: u64
  should_save_progress :: bool
  should_load_progress :: bool
  cdc_start :: int

record scylla =
  connect_session :: "string list \<Rightarrow> string + unit"
  table_keys :: "string \<Rightarrow> string \<Rightarrow> string + table_key_info"
  checkpoint_saver :: "string \<Rightarrow> string \<Rightarrow> string + unit"
  build_reader :: "reader_config \<Rightarrow> string + unit"

definition start_reader :: "scylla \<Rightarrow> int \<Rightarrow> ingestor_args \<Rightarrow> string \<Rightarrow> string \<Rightarrow> string + reader_config" where
  "start_reader L now args keyspace table =
     (case checkpoint_saver L keyspace (table @ ''_tantylla_checkpoints'') of
        Inl err \<Rightarrow> Inl ''creating CDC checkpoint saver''
      | Inr _ \<Rightarrow>
          let config = \<lparr>cdc_keyspace = keyspace, cdc_table = table, safety_interval_ms = arg_safety_interval args,
            sleep_interval_ms = arg_sleep_interval args, should_save_progress = True, should_load_progress = True,
            cdc_start = start_timestamp now args\<rparr>
          in case build_reader L config of Inl err \<Rightarrow> Inl err | Inr _ \<Rightarrow> Inr config)"

datatype ingestor_error = BadArguments | NotStarted string

record 'a started_ingestor =
  started_service :: service
  started_router :: router
  started_reader :: reader_config
  started_layer :: "'a option"

text \<open>Up to the \<open>select!\<close>; the table's name is split by \<open>start_ingestor\<close>.\<close>

definition main_ingestor ::
  "build \<Rightarrow> 'a sockets \<Rightarrow> scylla \<Rightarrow> int \<Rightarrow> given \<Rightarrow> ingestor_error + 'a started_ingestor" where
  "main_ingestor b P L now given =
     (case parse_ingestor_args b given of
        None \<Rightarrow> Inl BadArguments
      | Some args \<Rightarrow>
          (case test_layer P (arg_test_event_port args) of
             Inl err \<Rightarrow> Inl (NotStarted err)
           | Inr layer \<Rightarrow>
               (case connect_session L (arg_scylla_uri args) of
                  Inl err \<Rightarrow> Inl (NotStarted err)
                | Inr _ \<Rightarrow>
                    (case start_ingestor (table_keys L) (arg_search_nodes args) (arg_table_name args) of
                       Inl err \<Rightarrow> Inl (NotStarted err)
                     | Inr (svc, R) \<Rightarrow>
                         (case parse_table_name (arg_table_name args) of
                            None \<Rightarrow> Inl BadArguments
                          | Some (keyspace, table) \<Rightarrow>
                              (case start_reader L now args keyspace table of
                                 Inl err \<Rightarrow> Inl (NotStarted err)
                               | Inr reader \<Rightarrow>
                                   Inr \<lparr>started_service = svc, started_router = R, started_reader = reader,
                                        started_layer = layer\<rparr>))))))"

lemma release_defaults: "parse_u64 ''30_000'' = None" "parse_u64 ''10_000'' = None" "parse_u64 ''500'' = Some 500"
  by (simp_all add: parse_u64_def parse_unsigned_def parse_nat_def digit_val_def)

text \<open>A debug build on its defaults.\<close>

lemma parse_debug_args:
  assumes "given ''safety-interval'' = None" "given ''sleep-interval'' = None" "given ''scylla-uri'' = Some uri"
    and "given ''table-name'' = Some name" "given ''search-nodes'' = Some nodes" "given ''test-event-port'' = None"
    and "debug_arg Debug parse_i64 given ''start-timestamp-micros'' = Some micros"
  shows "parse_ingestor_args Debug given =
    Some \<lparr>arg_scylla_uri = str_split (CHR '','') uri, arg_table_name = name, arg_search_nodes = str_split (CHR '','') nodes,
          arg_safety_interval = 500, arg_sleep_interval = 500, arg_test_event_port = None,
          arg_start_timestamp_micros = micros\<rparr>"
proof -
  have "debug_arg Debug parse_u16 given ''test-event-port'' = Some None"
    by (simp add: debug_arg_def assms(6))
  moreover have "u64_arg given ''safety-interval'' (safety_interval_default Debug) = Some 500"
    "u64_arg given ''sleep-interval'' (sleep_interval_default Debug) = Some 500"
    by (simp_all add: u64_arg_def text_arg_def assms(1,2) safety_interval_default_def sleep_interval_default_def
        release_defaults)
  ultimately show ?thesis
    unfolding parse_ingestor_args_def list_arg_def assms(3-5,7) by simp
qed

lemma main_ingestor_debug:
  assumes "given ''safety-interval'' = None" "given ''sleep-interval'' = None" "given ''scylla-uri'' = Some uri"
    and "given ''table-name'' = Some (keyspace @ ''.'' @ table)" "CHR ''.'' \<notin> set keyspace"
    and "given ''search-nodes'' = Some nodes" "given ''test-event-port'' = None"
    and "debug_arg Debug parse_i64 given ''start-timestamp-micros'' = Some micros"
    and "connect_session L (str_split (CHR '','') uri) = Inr ()" "table_keys L keyspace table = Inr keys"
    and "checkpoint_saver L keyspace (table @ ''_tantylla_checkpoints'') = Inr ()" "\<forall>config. build_reader L config = Inr ()"
  shows "\<exists>started. main_ingestor Debug P L now given = Inr started \<and>
    safety_interval_ms (started_reader started) = 500 \<and> sleep_interval_ms (started_reader started) = 500 \<and>
    cdc_start (started_reader started) = (case micros of Some m \<Rightarrow> 1000 * m | None \<Rightarrow> now)"
proof -
  note args = parse_debug_args [OF assms(1-4,6-8)]
  have name: "parse_table_name (keyspace @ CHR ''.'' # table) = Some (keyspace, table)"
    using split_first_append [OF assms(5)] by (simp add: parse_table_name_def)
  show ?thesis
    by (simp add: main_ingestor_def args test_layer_def assms(9) start_ingestor_def name assms(10) start_reader_def assms(11,12)
        Let_def start_timestamp_def)
qed

section \<open>Properties\<close>

text \<open>C13: A node that stops forgets what was not committed. Operations that were answered since the last commit are
  not in the index the node opens when it starts again, whatever rounds succeeded or failed before: its store is
  the one of the last commit, with an empty cache and generation zero, as if the batch had never been sent; the new
  engine satisfies the engine's invariant.\<close>

theorem stopped_node_forgets:
  assumes "writer_laws T V" "opening_laws K D V" "engine_sound S T V e'"
    and "process_batch S T ops e = (e', Inr resp)"
    and "parse_node_args b given = Some args" "on_disk D (index_path args) k = committed V (writer e')"
    and "start_node P K b given k = (k', Inr node)"
  shows "engine_inv S T V (node_engine node) \<and>
    store_of S T V (node_engine node) = store_restart (store_of S T V e') \<and>
    store_restart (store_of S T V e') = store_restart (store_of S T V e)"
proof -
  have run: "open_engine K (index_path args) k = (k', Inr (node_engine node))"
    using assms(5,7) by (auto simp: start_node_def split: option.splits prod.splits sum.splits)
  have "committed V (writer e') = committed V (writer e)"
    using process_batch_views [OF assms(1,4)] by simp
  then have "store_restart (store_of S T V e') = store_restart (store_of S T V e)"
    by (simp add: store_restart_def store_of_def)
  then show ?thesis using restarted [OF assms(2,3,6) run] by simp
qed

text \<open>Directories that keep lists of documents.\<close>

definition ref_opener :: "(string \<Rightarrow> json list, json list, ref_index) opener" where
  "ref_opener =
     \<lparr>create_dir_all = (\<lambda>path k. (k, Inr ())), open_directory = (\<lambda>path k. Inr ()),
      open_or_create = (\<lambda>path schema k. (k, Inr (k path))),
      index_writer = (\<lambda>b i. Inr \<lparr>r_pending = i, r_committed = i, r_visible = i, r_opstamp = 0\<rparr>),
      index_reader = (\<lambda>policy i. Inr ())\<rparr>"

definition ref_disk :: "(string \<Rightarrow> json list, json list, json) disk_view" where
  "ref_disk = \<lparr>on_disk = (\<lambda>path k. k path), opened_docs = id\<rparr>"

lemma ref_opening_laws: "opening_laws ref_opener ref_disk ref_view"
  by (auto simp: opening_laws_def ref_opener_def ref_disk_def ref_view_def)

definition ref_sockets :: "string sockets" where
  "ref_sockets = \<lparr>parse_socket_addr = Some, bind_udp = (\<lambda>addr. Inr ())\<rparr>"

theorem stopped_node_forgets_witness:
  "\<exists>k' node.
     snd (process_batch ref_serde ref_tantivy sample_ops ref_engine) =
       Inr \<lparr>processed_count = 2, skipped_count = 1, success = True\<rparr> \<and>
     start_node ref_sockets ref_opener Release Map.empty (\<lambda>_. []) = (k', Inr node) \<and>
     store_of ref_serde ref_tantivy ref_view (node_engine node) = store_restart (store_of ref_serde ref_tantivy ref_view ref_engine)"
proof -
  have args: "parse_node_args Release Map.empty =
    Some \<lparr>node_port = 10000, node_host = ''[::1]'', node_commit_interval_secs = 5, node_test_event_port = None\<rparr>"
    by (simp add: parse_node_args_def u16_arg_def u64_arg_def text_arg_def debug_arg_def parse_u16_def parse_u64_def
        parse_unsigned_def parse_nat_def digit_val_def)
  obtain k' node where node: "start_node ref_sockets ref_opener Release Map.empty (\<lambda>_. []) = (k', Inr node)"
    by (simp add: start_node_def args open_engine_def ref_opener_def ref_sockets_def test_layer_def)
  have "engine_sound ref_serde ref_tantivy ref_view sample_engine"
    unfolding sample_engine_def by (rule engine_inv_sound [OF ref_batch_inv [OF ref_engine_inv]])
  moreover have "on_disk ref_disk p (\<lambda>_. []) = committed ref_view (writer sample_engine)" for p
    by (simp add: sample_engine_def sample_ops_def ref_disk_def engine_eval ref_eval)
  ultimately show ?thesis
    using stopped_node_forgets [OF ref_writer_laws ref_opening_laws _ sample_run args _ node] node sample_run by auto
qed


definition ref_scylla :: scylla where
  "ref_scylla =
     \<lparr>connect_session = (\<lambda>uri. Inr ()),
      table_keys = (\<lambda>ks t. Inr \<lparr>partition_key_columns = [''pk''], full_primary_key_columns = [''pk''],
        clustering_key_columns = []\<rparr>),
      checkpoint_saver = (\<lambda>ks t. Inr ()), build_reader = (\<lambda>config. Inr ())\<rparr>"

definition sample_given :: given where
  "sample_given = [''scylla-uri'' \<mapsto> ''127.0.0.1:9042'', ''table-name'' \<mapsto> ''ks.t'', ''search-nodes'' \<mapsto> ''a,b'']"


end
