(* ===== verification/Node_Service.thy ===== *)
theory Node_Service
  imports Batch_Service Engine_Props
begin

text \<open>
  The write side of a node's gRPC service (\<open>node/src/service/core.rs\<close>) and the network between the
  ingestor and the nodes. A call can be refused, lost on the way to the node, or lost on the way back
  after the node has done the work; the list of \<open>faults\<close> says which, call by call. \<open>node_network\<close>
  is the contract the batch service relies on: a call that succeeds ran the batch on that node's
  engine, and one that fails ran it or did not.
\<close>

section \<open>Handlers\<close>

datatype status = InvalidArgument string | Internal string

definition index_batch ::
  "serde \<Rightarrow> ('w, 'a, 'd) tantivy \<Rightarrow> index_operation list \<Rightarrow> 'w engine \<Rightarrow>
   'w engine \<times> (status + index_batch_response)" where
  "index_batch S T operations e =
     (case process_batch S T operations e of
        (e', Inr response) \<Rightarrow> (e', Inr response)
      | (e', Inl err) \<Rightarrow> (e', Inl (Internal err)))"

definition list_document_ids :: "('w, 'a, 'd) tantivy \<Rightarrow> string \<Rightarrow> 'w engine \<Rightarrow> status + string list" where
  "list_document_ids T partition_key e = Inr (list_document_ids_by_partition_key T e partition_key)"

definition health_check :: "'w engine \<Rightarrow> status + bool" where
  "health_check e = Inr True"

section \<open>The network\<close>

datatype fault = NoFault | Refused | RequestLost | ResponseLost

record 'w net =
  nodes :: "string \<Rightarrow> 'w engine"
  faults :: "fault list"

definition next_fault :: "'w net \<Rightarrow> fault \<times> 'w net" where
  "next_fault n = (case faults n of [] \<Rightarrow> (NoFault, n) | f # fs \<Rightarrow> (f, n\<lparr>faults := fs\<rparr>))"

fun status_text :: "status \<Rightarrow> string" where
  "status_text (InvalidArgument s) = s"
| "status_text (Internal s) = s"

definition net_connect :: "string \<Rightarrow> 'w net \<Rightarrow> 'w net \<times> (string + unit)" where
  "net_connect address n =
     (case faults n of
        Refused # fs \<Rightarrow> (n\<lparr>faults := fs\<rparr>, Inl ''connection refused'')
      | _ \<Rightarrow> (n, Inr ()))"

definition net_index_batch ::
  "serde \<Rightarrow> ('w, 'a, 'd) tantivy \<Rightarrow> string \<Rightarrow> index_operation list \<Rightarrow> 'w net \<Rightarrow>
   'w net \<times> (string + index_batch_response)" where
  "net_index_batch S T address operations n =
     (case next_fault n of
        (f, n1) \<Rightarrow>
          if f = RequestLost then (n1, Inl ''request lost'')
          else case index_batch S T operations (nodes n1 address) of
            (e', res) \<Rightarrow>
              (n1\<lparr>nodes := (nodes n1)(address := e')\<rparr>,
               (if f = ResponseLost then Inl ''response lost''
                else case res of Inl s \<Rightarrow> Inl (status_text s) | Inr r \<Rightarrow> Inr r)))"

definition net_transport :: "serde \<Rightarrow> ('w, 'a, 'd) tantivy \<Rightarrow> 'w net transport" where
  "net_transport S T = \<lparr>connect_to = net_connect, call_index_batch = net_index_batch S T\<rparr>"

section \<open>The contract\<close>

locale node_network =
  fixes S :: serde
    and T :: "('w, 'a, 'd) tantivy"
    and X :: "'n transport"
    and engine_of :: "'n \<Rightarrow> string \<Rightarrow> 'w engine"
  assumes connect_keeps: "connect_to X a n = (n', res) \<Longrightarrow> engine_of n' = engine_of n"
    and call_ok: "call_index_batch X a ops n = (n', Inr r) \<Longrightarrow>
      process_batch S T ops (engine_of n a) = (engine_of n' a, Inr r) \<and> (\<forall>b. b \<noteq> a \<longrightarrow> engine_of n' b = engine_of n b)"
    and call_failed: "call_index_batch X a ops n = (n', Inl err) \<Longrightarrow>
      (engine_of n' a = engine_of n a \<or> engine_of n' a = fst (process_batch S T ops (engine_of n a))) \<and>
      (\<forall>b. b \<noteq> a \<longrightarrow> engine_of n' b = engine_of n b)"
begin

text \<open>Every engine moved by no batch, or by runs of this batch only.\<close>

definition ran :: "index_operation list \<Rightarrow> string \<Rightarrow> 'n \<Rightarrow> 'n \<Rightarrow> bool" where
  "ran ops a n n' =
     ((\<exists>k. engine_of n' a = ((\<lambda>e. fst (process_batch S T ops e)) ^^ k) (engine_of n a)) \<and>
      (\<forall>b. b \<noteq> a \<longrightarrow> engine_of n' b = engine_of n b))"

lemma ran_refl: "ran ops a n n"
  unfolding ran_def by (intro conjI exI [of _ 0]) simp_all

lemma ran_trans: "ran ops a n1 n2 \<Longrightarrow> ran ops a n2 n3 \<Longrightarrow> ran ops a n1 n3"
proof -
  assume "ran ops a n1 n2" "ran ops a n2 n3"
  then obtain k l where "engine_of n2 a = ((\<lambda>e. fst (process_batch S T ops e)) ^^ k) (engine_of n1 a)"
    "engine_of n3 a = ((\<lambda>e. fst (process_batch S T ops e)) ^^ l) (engine_of n2 a)"
    "\<forall>b. b \<noteq> a \<longrightarrow> engine_of n3 b = engine_of n1 b"
    by (auto simp: ran_def)
  then show ?thesis
    unfolding ran_def by (intro conjI exI [of _ "l + k"]) (simp_all add: funpow_add)
qed

lemma ran_once:
  assumes "engine_of n' a = fst (process_batch S T ops (engine_of n a))" "\<forall>b. b \<noteq> a \<longrightarrow> engine_of n' b = engine_of n b"
  shows "ran ops a n n'"
  unfolding ran_def by (intro conjI exI [of _ 1]) (simp_all add: assms)

lemma try_send_ran:
  assumes "try_send_batch X a ops n = (n', res)"
  shows "ran ops a n n'"
proof -
  obtain n1 c where c: "connect_to X a n = (n1, c)" by (cases "connect_to X a n")
  then have same: "engine_of n1 = engine_of n" by (rule connect_keeps)
  show ?thesis
  proof (cases c)
    case (Inl err)
    then have "n' = n1" using assms c by (simp add: try_send_batch_def)
    then show ?thesis using same ran_refl [of ops a n] by (simp add: ran_def)
  next
    case (Inr u)
    obtain n2 r where r: "call_index_batch X a ops n1 = (n2, r)" by (cases "call_index_batch X a ops n1")
    then have n': "n' = n2" using assms c Inr by (cases r) (simp_all add: try_send_batch_def)
    show ?thesis
    proof (cases r)
      case (Inl err)
      then show ?thesis
        using call_failed [OF r [unfolded Inl]] same n' ran_once [of n' a ops n] ran_refl [of ops a n]
        by (auto simp: ran_def)
    next
      case (Inr resp)
      then show ?thesis
        using call_ok [OF r [unfolded Inr]] same n' by (intro ran_once) simp_all
    qed
  qed
qed

lemma try_send_ok:
  assumes "try_send_batch X a ops n = (n', Inr r)"
  shows "process_batch S T ops (engine_of n a) = (engine_of n' a, Inr r)"
proof -
  obtain n1 where n1: "connect_to X a n = (n1, Inr ())" "call_index_batch X a ops n1 = (n', Inr r)"
    using assms by (auto simp: try_send_batch_def split: prod.splits sum.splits)
  then show ?thesis using connect_keeps [OF n1(1)] call_ok [OF n1(2)] by simp
qed

text \<open>Retries run the batch on the node again and again; a response comes from its last run.\<close>

lemma retry_loop_ran:
  assumes "retry_loop X a ops m b left lst n = (n', pauses, res)"
  shows "ran ops a n n' \<and> (\<forall>r. res = Inr r \<longrightarrow>
    (\<exists>n1. ran ops a n n1 \<and> process_batch S T ops (engine_of n1 a) = (engine_of n' a, Inr r)))"
  using assms
proof (induction left arbitrary: lst n pauses)
  case (Suc left)
  obtain n1 r1 where 1: "try_send_batch X a ops n = (n1, r1)" by (cases "try_send_batch X a ops n")
  note ran1 = try_send_ran [OF 1]
  show ?case
  proof (cases r1)
    case (Inl err)
    then obtain ps where "retry_loop X a ops m b left (Some err) n1 = (n', ps, res)"
      using Suc.prems 1 by (auto simp: Let_def split: prod.splits)
    from Suc.IH [OF this] show ?thesis using ran_trans [OF ran1] by blast
  next
    case (Inr r)
    then have "n' = n1" "res = Inr r" using Suc.prems 1 by simp_all
    then show ?thesis using ran1 try_send_ok [OF 1 [unfolded Inr]] ran_refl by blast
  qed
qed (auto simp: ran_refl)

end

interpretation net: node_network S T "net_transport S T" nodes for S :: serde and T :: "('w, 'a, 'd) tantivy"
proof (unfold_locales, goal_cases)
  case (1 a n n' res)
  then show ?case by (auto simp: net_transport_def net_connect_def split: list.splits fault.splits)
next
  case (2 a ops n n' r)
  then show ?case
    by (auto simp: net_transport_def net_index_batch_def next_fault_def index_batch_def
        split: list.splits prod.splits sum.splits if_splits)
next
  case (3 a ops n n' err)
  then show ?case
    by (auto simp: net_transport_def net_index_batch_def next_fault_def index_batch_def
        split: list.splits prod.splits sum.splits if_splits)
qed

section \<open>What acknowledged groups leave on the nodes\<close>

text \<open>What batches of operations with \<open>p\<close> do on every node: they keep \<open>I\<close> of its engine (which may depend on its
  address) and whatever \<open>H\<close> says of operations, and one that is answered establishes \<open>H\<close> of its own.\<close>

definition batch_contract ::
  "serde \<Rightarrow> ('w, 'a, 'd) tantivy \<Rightarrow> (index_operation \<Rightarrow> bool) \<Rightarrow> (string \<Rightarrow> 'w engine \<Rightarrow> bool) \<Rightarrow>
   ('w engine \<Rightarrow> index_operation \<Rightarrow> bool) \<Rightarrow> bool" where
  "batch_contract S T p I H =
     (\<forall>a ops e e' res. list_all p ops \<longrightarrow> I a e \<longrightarrow> process_batch S T ops e = (e', res) \<longrightarrow>
        I a e' \<and> (\<forall>op. H e op \<longrightarrow> H e' op) \<and> (\<forall>r. res = Inr r \<longrightarrow> (\<forall>op \<in> set ops. H e' op)))"

text \<open>It is enough to say what one operation does.\<close>

lemma contract_of_ops:
  assumes op: "\<And>a op e e' r. p op \<Longrightarrow> I a e \<Longrightarrow> process_op S T op e = (e', r) \<Longrightarrow>
    I a e' \<and> (\<forall>op'. H e op' \<longrightarrow> H e' op') \<and> ((\<nexists>err. r = Failed err) \<longrightarrow> H e' op)"
  shows "batch_contract S T p I H"
proof -
  have run: "I a e' \<and> (\<forall>op. H e op \<longrightarrow> H e' op) \<and> (\<forall>r. res = Inr r \<longrightarrow> (\<forall>op \<in> set ops. H e' op))"
    if "list_all p ops" "I a e" "process_ops S T ops pr sk e = (e', res)" for a ops e e' res pr sk
    using that
  proof (induction ops arbitrary: e pr sk)
    case (Cons o1 ops)
    obtain e1 out where 1: "process_op S T o1 e = (e1, out)" by (cases "process_op S T o1 e")
    note first = op [OF _ Cons.prems(2) 1]
    show ?case
    proof (cases "\<exists>err. out = Failed err")
      case True
      then show ?thesis using first Cons.prems(1,3) 1 by auto
    next
      case False
      then obtain pr' sk' where "process_ops S T ops pr' sk' e1 = (e', res)"
        using Cons.prems(3) 1 by (cases out) auto
      from Cons.IH [OF _ _ this] show ?thesis using first False Cons.prems(1) by auto
    qed
  qed auto
  show ?thesis
    unfolding batch_contract_def
  proof (intro allI impI)
    fix a ops e e' res
    assume "list_all p ops" "I a e" "process_batch S T ops e = (e', res)"
    then show "I a e' \<and> (\<forall>op. H e op \<longrightarrow> H e' op) \<and> (\<forall>r. res = Inr r \<longrightarrow> (\<forall>op \<in> set ops. H e' op))"
      using run [of ops a e 0 0 e' res] by (cases "poisoned e") (auto simp: process_batch_def)
  qed
qed

lemma upserts_contract:
  assumes "serde_wf S" "writer_laws T V" "storage_laws S T" "reader_laws T V"
  shows "batch_contract S T (\<lambda>op. op_type_of op = OpUpsert) (\<lambda>_. engine_inv S T V) (holds_write S T)"
proof -
  have "all_upserts ops" if "list_all (\<lambda>op. op_type_of op = OpUpsert) ops" for ops
    using that by (simp add: all_upserts_def)
  then show ?thesis
    using upsert_batch_grows [OF assms] upsert_batch_held [OF assms] unfolding batch_contract_def by blast
qed

lemma batch_alive:
  assumes "\<not> poisoned e" "process_batch S T ops e = (e', res)"
  shows "\<not> poisoned e'"
proof (rule process_batch_invariant [of ops "\<lambda>e. \<not> poisoned e" S T e e' res])
  show "\<not> poisoned e2" if "\<not> poisoned e1" "process_op S T op e1 = (e2, r)" for op e1 e2 r
    using process_op_gen [OF that(2)] that(1) by simp
qed (use assms in simp_all)

lemma alive_contract: "batch_contract S T (\<lambda>_. True) (\<lambda>_ e. \<not> poisoned e) (\<lambda>_ _. True)"
  using batch_alive unfolding batch_contract_def by blast

context node_network
begin

lemma ran_contract:
  assumes "batch_contract S T p I H" "list_all p ops" "\<forall>b. I b (engine_of n b)" "ran ops a n n'"
  shows "(\<forall>b. I b (engine_of n' b)) \<and> (\<forall>b op. H (engine_of n b) op \<longrightarrow> H (engine_of n' b) op)"
proof -
  let ?run = "\<lambda>e. fst (process_batch S T ops e)"
  have step: "I a (?run e) \<and> (\<forall>op. H e op \<longrightarrow> H (?run e) op)" if "I a e" for e
    using assms(1,2) that prod.collapse unfolding batch_contract_def by metis
  have "I a ((?run ^^ k) e) \<and> (\<forall>op. H e op \<longrightarrow> H ((?run ^^ k) e) op)" if "I a e" for k e
  proof (induction k)
    case (Suc k)
    then show ?case using step [of "(?run ^^ k) e"] by simp
  qed (use that in simp)
  then have "I a (engine_of n' a) \<and> (\<forall>op. H (engine_of n a) op \<longrightarrow> H (engine_of n' a) op)"
    using assms(3,4) unfolding ran_def by metis
  moreover have "engine_of n' b = engine_of n b" if "b \<noteq> a" for b
    using assms(4) that by (simp add: ran_def)
  ultimately show ?thesis using assms(3) by metis
qed

lemma send_groups_contract:
  assumes contract: "batch_contract S T p I H"
    and "\<forall>b. I b (engine_of n b)" "\<forall>(t, ops) \<in> set gs. list_all p ops" "send_groups X svc gs n = (n', failed, ws)"
  shows "(\<forall>b. I b (engine_of n' b)) \<and> (\<forall>b op. H (engine_of n b) op \<longrightarrow> H (engine_of n' b) op) \<and>
    (\<forall>(t, ops) \<in> set gs. t \<notin> set failed \<longrightarrow> (\<forall>op \<in> set ops. H (engine_of n' (node_address t)) op))"
  using assms(2-)
proof (induction gs arbitrary: n failed ws)
  case (Cons g gs)
  obtain t ops where g: "g = (t, ops)" by (cases g)
  obtain n1 ps res where 1: "send_batch_with_retry X svc t ops n = (n1, ps, res)"
    by (cases "send_batch_with_retry X svc t ops n")
  obtain failed1 ws1 where 2: "send_groups X svc gs n1 = (n', failed1, ws1)"
    using Cons.prems(3) by (auto simp: g 1 split: prod.splits sum.splits if_splits)
  have p: "list_all p ops" using Cons.prems(2) by (simp add: g)
  note ran = retry_loop_ran [OF 1 [unfolded send_batch_with_retry_def]]
  have k1: "(\<forall>b. I b (engine_of n1 b)) \<and> (\<forall>b op. H (engine_of n b) op \<longrightarrow> H (engine_of n1 b) op)"
    using ran_contract [OF contract p Cons.prems(1)] ran by blast
  have rest: "(\<forall>b. I b (engine_of n' b)) \<and> (\<forall>b op. H (engine_of n1 b) op \<longrightarrow> H (engine_of n' b) op) \<and>
      (\<forall>(t, ops) \<in> set gs. t \<notin> set failed1 \<longrightarrow> (\<forall>op \<in> set ops. H (engine_of n' (node_address t)) op))"
    by (rule Cons.IH [OF _ _ 2]) (use k1 Cons.prems(2) in auto)
  have sub: "set failed1 \<subseteq> set failed" and err_failed: "res = Inl err \<Longrightarrow> t \<in> set failed" for err
    using Cons.prems(3) by (auto simp: g 1 2 split: sum.splits if_splits)
  have "H (engine_of n' (node_address t)) op" if op: "op \<in> set ops" "t \<notin> set failed" for op
  proof -
    obtain r where "res = Inr r" using err_failed op(2) by (cases res) auto
    then obtain n0 where n0: "ran ops (node_address t) n n0"
      "process_batch S T ops (engine_of n0 (node_address t)) = (engine_of n1 (node_address t), Inr r)"
      using ran by blast
    have "I (node_address t) (engine_of n0 (node_address t))"
      using ran_contract [OF contract p Cons.prems(1) n0(1)] by blast
    then have "H (engine_of n1 (node_address t)) op"
      using contract p n0(2) op(1) unfolding batch_contract_def by blast
    then show ?thesis using rest by blast
  qed
  then show ?case using k1 rest sub by (auto simp: g)
qed simp

end

end
