(* ===== verification/Reference_Codec.thy ===== *)
theory Reference_Codec
  imports Batch_Service Reference_Index
begin

text \<open>
  A concrete encoding of batch items as JSON objects, field by field, that satisfies the law the
  properties assume of the derived \<open>serde\<close> code: an encoded item decodes to itself.
\<close>

definition delta_to_json :: "collection_delta \<Rightarrow> json" where
  "delta_to_json d = JObject
     [(''added_elements_json'', JString (added_elements_json d)),
      (''column'', JString (column d)),
      (''deleted_elements_json'', JString (deleted_elements_json d)),
      (''tombstoned'', JBool (tombstoned d))]"

fun as_bool :: "json \<Rightarrow> bool option" where
  "as_bool (JBool b) = Some b"
| "as_bool _ = None"

definition delta_of_json :: "json \<Rightarrow> collection_delta option" where
  "delta_of_json v =
     (case (Option.bind (json_get ''column'' v) as_str, Option.bind (json_get ''tombstoned'' v) as_bool,
            Option.bind (json_get ''added_elements_json'' v) as_str,
            Option.bind (json_get ''deleted_elements_json'' v) as_str) of
        (Some c, Some t, Some a, Some d) \<Rightarrow>
          Some \<lparr>column = c, tombstoned = t, added_elements_json = a, deleted_elements_json = d\<rparr>
      | _ \<Rightarrow> None)"

fun decode_all :: "('a \<Rightarrow> 'b option) \<Rightarrow> 'a list \<Rightarrow> 'b list option" where
  "decode_all f [] = Some []"
| "decode_all f (x # xs) =
     (case (f x, decode_all f xs) of (Some y, Some ys) \<Rightarrow> Some (y # ys) | _ \<Rightarrow> None)"

definition option_to_json :: "('a \<Rightarrow> json) \<Rightarrow> 'a option \<Rightarrow> json" where
  "option_to_json f x = (case x of None \<Rightarrow> JNull | Some v \<Rightarrow> f v)"

definition option_of_json :: "(json \<Rightarrow> 'a option) \<Rightarrow> json option \<Rightarrow> 'a option option" where
  "option_of_json f v =
     (case v of None \<Rightarrow> Some None | Some JNull \<Rightarrow> Some None | Some v \<Rightarrow> map_option Some (f v))"

definition item_to_json :: "batch_item \<Rightarrow> json" where
  "item_to_json x = JObject
     [(''cdc_ttl'', option_to_json (\<lambda>t. JNumber (number_of_i64 t)) (bi_cdc_ttl x)),
      (''collection_deltas'', JArray (map delta_to_json (bi_collection_deltas x))),
      (''id'', JString (bi_id x)),
      (''op_type'', JNumber (PosInt (ucast (bi_op_type x)))),
      (''partition_key'', option_to_json JString (bi_partition_key x)),
      (''payload_json'', JString (bi_payload_json x)),
      (''target_node'', JString (target_node x)),
      (''writetime'', JNumber (PosInt (bi_writetime x)))]"

definition item_of_json :: "json \<Rightarrow> batch_item option" where
  "item_of_json v =
     (case (option_of_json as_i64 (json_get ''cdc_ttl'' v),
            Option.bind (Option.bind (json_get ''collection_deltas'' v) as_array) (decode_all delta_of_json),
            Option.bind (json_get ''id'' v) as_str, Option.bind (json_get ''op_type'' v) as_u64) of
        (Some ttl, Some deltas, Some i, Some ty) \<Rightarrow>
          (case (option_of_json as_str (json_get ''partition_key'' v),
                 Option.bind (json_get ''payload_json'' v) as_str,
                 Option.bind (json_get ''target_node'' v) as_str,
                 Option.bind (json_get ''writetime'' v) as_u64) of
             (Some pk, Some payload, Some target, Some wt) \<Rightarrow>
               Some \<lparr>target_node = target, bi_id = i, bi_op_type = ucast ty, bi_writetime = wt,
                 bi_cdc_ttl = ttl, bi_payload_json = payload, bi_collection_deltas = deltas,
                 bi_partition_key = pk\<rparr>
           | _ \<Rightarrow> None)
      | _ \<Rightarrow> None)"

definition ref_codec :: item_codec where
  "ref_codec = \<lparr>item_to_string = (\<lambda>x. print_json (item_to_json x)),
     item_from_str = (\<lambda>s. Option.bind (ref_from_str s) item_of_json)\<rparr>"

lemma delta_back: "delta_of_json (delta_to_json d) = Some d"
  by (simp add: delta_of_json_def delta_to_json_def bt_get_Cons)

lemma decode_all_map: "(\<And>x. f (g x) = Some x) \<Longrightarrow> decode_all f (map g xs) = Some xs"
  by (induction xs) auto

lemma item_back: "item_of_json (item_to_json x) = Some x"
proof -
  have "(ucast (ucast (t :: i32) :: u64) :: i32) = t" for t
    by (rule bit_word_eqI) (auto simp: bit_simps)
  then show ?thesis
    by (simp add: item_of_json_def item_to_json_def bt_get_Cons option_of_json_def option_to_json_def
        decode_all_map delta_back split: option.split)
qed

lemma item_to_json_wf: "json_wf (item_to_json x)"
  by (simp add: item_to_json_def bt_inv_Cons less_char_def option_to_json_def number_of_i64_def
      delta_to_json_def list_all_iff split: option.split)

lemma ref_codec_laws: "codec_laws ref_codec"
  using ref_roundtrip [OF item_to_json_wf] item_back
  by (simp add: codec_laws_def ref_codec_def ref_serde_def)

lemma ref_codec_back [ref_eval]: "item_from_str ref_codec (item_to_string ref_codec x) = Some x"
  using ref_codec_laws by (simp add: codec_laws_def)

end
