(* ===== verification/Batch_Props.thy ===== *)
theory Batch_Props
  imports Node_Service Reference_Codec
begin

text \<open>
  The properties of the batch service (\<open>Batch_Service\<close>), alone and against the nodes behind a faulty
  network (\<open>Node_Service\<close>): how items are grouped, how often a group is sent, what a flush promises
  when it succeeds, and what becomes of the items when it fails.
\<close>

section \<open>Groups\<close>

definition decoded :: "item_codec \<Rightarrow> string list \<Rightarrow> batch_item list" where
  "decoded C items = List.map_filter (item_from_str C) items"

definition ops_for :: "item_codec \<Rightarrow> string list \<Rightarrow> string \<Rightarrow> index_operation list" where
  "ops_for C items t = map operation_of (filter (\<lambda>x. target_node x = t) (decoded C items))"

lemma decoded_simps [simp]:
  "decoded C [] = []"
  "decoded C (i # is) = (case item_from_str C i of Some x \<Rightarrow> x # decoded C is | None \<Rightarrow> decoded C is)"
  by (simp_all add: decoded_def List.map_filter_def split: option.splits)

lemma hm_inv_push_group: "hm_inv m \<Longrightarrow> hm_inv (push_group t op m)"
  by (simp add: push_group_def hmap.inv_put)

lemma hm_get_push_group:
  "hm_inv m \<Longrightarrow> hm_get (push_group t op m) j =
     (if j = t then Some ((case hm_get m t of None \<Rightarrow> [] | Some ops \<Rightarrow> ops) @ [op]) else hm_get m j)"
  by (simp add: push_group_def hmap.get_put)

lemma group_items_inv: "hm_inv m \<Longrightarrow> hm_inv (group_items C items m)"
  by (induction items arbitrary: m) (auto simp: hm_inv_push_group split: option.splits)

lemma group_items_get:
  "hm_inv m \<Longrightarrow> hm_get (group_items C items m) t =
     (if ops_for C items t = [] then hm_get m t
      else Some ((case hm_get m t of None \<Rightarrow> [] | Some ops \<Rightarrow> ops) @ ops_for C items t))"
proof (induction items arbitrary: m)
  case (Cons i items)
  show ?case
  proof (cases "item_from_str C i")
    case (Some x)
    then show ?thesis
      using Cons.IH [OF hm_inv_push_group [OF Cons.prems], of "target_node x" "operation_of x"]
      by (simp add: ops_for_def hm_get_push_group Cons.prems)
  qed (use Cons in \<open>simp add: ops_for_def\<close>)
qed (simp add: ops_for_def)

lemma set_group_items: "set (group_items C items []) = {(t, ops_for C items t) |t. ops_for C items t \<noteq> []}"
proof -
  have "(t, ops) \<in> set (group_items C items []) \<longleftrightarrow> hm_get (group_items C items []) t = Some ops" for t ops
    by (simp add: hm_get_mem group_items_inv)
  then show ?thesis by (auto simp: group_items_get split: if_splits)
qed

text \<open>The hash map is iterated in some order.\<close>

definition some_order :: "(groups \<Rightarrow> groups) \<Rightarrow> bool" where
  "some_order iter = (\<forall>m. mset (iter m) = mset m)"

lemma set_some_order: "some_order iter \<Longrightarrow> set (iter m) = set m"
  unfolding some_order_def by (metis mset_eq_setD)

text \<open>A flush groups the buffered items by target node and loses none: every node gets one group,
  the operations of all decodable items addressed to it, in the order they were buffered.\<close>

theorem groups_are_exact:
  assumes "some_order iter"
  shows "set (iter (group_items C items [])) =
      {(t, map operation_of (filter (\<lambda>x. target_node x = t) (decoded C items))) |t.
         \<exists>x \<in> set (decoded C items). target_node x = t} \<and>
    distinct (map fst (iter (group_items C items [])))"
proof -
  have "mset (map fst (iter (group_items C items []))) = mset (map fst (group_items C items []))"
    using assms by (simp add: some_order_def)
  then have "distinct (map fst (iter (group_items C items [])))"
    using group_items_inv [of "[]" C items] by (metis hm_inv_def hm_inv_Nil mset_eq_imp_distinct_iff)
  then show ?thesis
    by (simp add: set_some_order [OF assms] set_group_items)
      (auto simp: ops_for_def filter_empty_conv)
qed

section \<open>Sending\<close>

lemma retry_loop_response:
  "retry_loop X a ops m b left lst n = (n', ps, Inr r) \<Longrightarrow>
   \<exists>k n1. k < left \<and> length ps \<le> k \<and> try_send_batch X a ops n1 = (n', Inr r)"
proof (induction left arbitrary: lst n ps)
  case (Suc left)
  obtain n1 r1 where 1: "try_send_batch X a ops n = (n1, r1)" by (cases "try_send_batch X a ops n")
  show ?case
  proof (cases r1)
    case (Inl err)
    then obtain ps' where ps': "retry_loop X a ops m b left (Some err) n1 = (n', ps', Inr r)"
      "length ps \<le> Suc (length ps')"
      using Suc.prems 1 by (auto simp: Let_def split: prod.splits if_splits)
    from Suc.IH [OF ps'(1)] ps'(2) show ?thesis by (metis Suc_le_mono Suc_mono order_trans)
  qed (use Suc.prems 1 in auto)
qed simp

lemma retry_loop_exhausted:
  assumes "\<And>n. \<exists>n' err. try_send_batch X a ops n = (n', Inl err)" "left \<le> unat m"
  shows "\<exists>n' lst'. retry_loop X a ops m b left lst n =
    (n', map (backoff_ms b) [unat m - left ..< unat m - 1], Inl \<lparr>send_attempts = m, send_last_error = lst'\<rparr>)"
  using assms(2)
proof (induction left arbitrary: lst n)
  case (Suc left)
  obtain n1 err where 1: "try_send_batch X a ops n = (n1, Inl err)" using assms(1) by blast
  obtain n' lst' where IH: "retry_loop X a ops m b left (Some err) n1 =
      (n', map (backoff_ms b) [unat m - left ..< unat m - 1], Inl \<lparr>send_attempts = m, send_last_error = lst'\<rparr>)"
    using Suc.IH [of "Some err" n1] Suc.prems by auto
  have step: "unat m - left = Suc (unat m - Suc left)" using Suc.prems by simp
  show ?case
  proof (cases "unat m - Suc left < unat m - 1")
    case True
    then have "[unat m - Suc left ..< unat m - 1] = (unat m - Suc left) # [unat m - left ..< unat m - 1]"
      by (simp add: step upt_conv_Cons)
    then show ?thesis using 1 IH True by simp
  next
    case False
    then have "[unat m - Suc left ..< unat m - 1] = []" "[unat m - left ..< unat m - 1] = []"
      using step by simp_all
    then show ?thesis using 1 IH False by simp
  qed
qed simp


lemma send_groups_failed: "send_groups X svc gs n = (n', failed, ws) \<Longrightarrow> set failed \<subseteq> fst ` set gs"
  by (induction X svc gs n arbitrary: n' failed ws rule: send_groups.induct)
    (fastforce split: prod.splits sum.splits if_splits)+

lemma flush_emptied: "flush C iter X svc n = (svc', n', res) \<Longrightarrow> buffer svc' = [] \<and> svc' = svc\<lparr>buffer := []\<rparr>"
  by (auto simp: flush_def take_buffer_def split: if_splits prod.splits)

lemma flush_deliver:
  "flush C iter X svc n = (svc', n', res) \<Longrightarrow> buffer svc \<noteq> [] \<Longrightarrow>
   deliver C iter X svc' (buffer svc) n = (n', res)"
  by (auto simp: flush_def take_buffer_def split: prod.splits)

lemma deliver_result:
  assumes "deliver C iter X svc items n = (n', res)"
  obtains failed ws where "send_groups X svc (iter (group_items C items [])) n = (n', failed, ws)"
    "res = Inr () \<and> failed = [] \<or> (\<exists>err. res = Inl err \<and> failed_nodes err = failed \<and> failed \<noteq> [])"
  using assms by (auto simp: deliver_def split: prod.splits if_splits)

section \<open>What a flush promises\<close>

text \<open>A flush keeps what the batches of the buffered operations keep, on every node, and one that succeeds
  leaves each operation as an answered batch leaves it.\<close>

lemma flush_contract:
  assumes contract: "batch_contract S T p I H" and iter: "some_order iter"
    and "\<forall>a. I a (nodes n a)" "\<forall>x \<in> set (decoded C (buffer svc)). p (operation_of x)"
    and "flush C iter (net_transport S T) svc n = (svc', n', res)"
  shows "\<forall>a. I a (nodes n' a)"
    and "H (nodes n a) op \<Longrightarrow> H (nodes n' a) op"
    and "res = Inr () \<Longrightarrow> x \<in> set (decoded C (buffer svc)) \<Longrightarrow> H (nodes n' (node_address (target_node x))) (operation_of x)"
proof -
  have "(\<forall>a. I a (nodes n' a)) \<and> (\<forall>a op. H (nodes n a) op \<longrightarrow> H (nodes n' a) op) \<and>
    (res = Inr () \<longrightarrow> (\<forall>x \<in> set (decoded C (buffer svc)). H (nodes n' (node_address (target_node x))) (operation_of x)))"
  proof (cases "buffer svc = []")
    case True
    then have "n' = n" using assms(5) by (simp add: flush_def)
    then show ?thesis using assms(3) True by simp
  next
    case False
    let ?gs = "iter (group_items C (buffer svc) [])"
    obtain failed ws where sent: "send_groups (net_transport S T) svc' ?gs n = (n', failed, ws)"
      and ok: "res = Inr () \<longrightarrow> failed = []"
      using flush_deliver [OF assms(5) False] by (elim deliver_result) auto
    have gs: "set ?gs = {(t, ops_for C (buffer svc) t) |t. ops_for C (buffer svc) t \<noteq> []}"
      by (simp add: set_some_order [OF iter] set_group_items)
    have "\<forall>(t, ops) \<in> set ?gs. list_all p ops"
      using assms(4) by (auto simp: gs ops_for_def list_all_iff)
    note sent_all = net.send_groups_contract [OF contract assms(3) this sent]
    have "H (nodes n' (node_address (target_node x))) (operation_of x)"
      if "x \<in> set (decoded C (buffer svc))" "res = Inr ()" for x
    proof -
      have op: "operation_of x \<in> set (ops_for C (buffer svc) (target_node x))"
        using that(1) by (auto simp: ops_for_def)
      then have "(target_node x, ops_for C (buffer svc) (target_node x)) \<in> set ?gs"
        by (auto simp: gs)
      with sent_all ok that(2) op show ?thesis by fastforce
    qed
    with sent_all show ?thesis by blast
  qed
  then show "\<forall>a. I a (nodes n' a)"
    and "H (nodes n a) op \<Longrightarrow> H (nodes n' a) op"
    and "res = Inr () \<Longrightarrow> x \<in> set (decoded C (buffer svc)) \<Longrightarrow> H (nodes n' (node_address (target_node x))) (operation_of x)"
    by blast+
qed


section \<open>Delivery despite faults\<close>

definition serving :: "'w net \<Rightarrow> bool" where
  "serving n = (\<forall>a. \<not> poisoned (nodes n a))"

lemma process_op_ok:
  assumes "accepts S T" "\<not> poisoned e" "process_op S T op e = (e', out)"
  shows "\<not> poisoned e' \<and> (\<nexists>err. out = Failed err)"
proof -
  have add: "\<exists>w'. add_document T d w = Inr w'" for d w using assms(1) by (simp add: accepts_def)
  show ?thesis
    using assms(2,3) add
    by (auto simp: process_op_def do_upsert_def do_delete_def do_partition_delete_def Let_def
        split: op_type.splits if_splits sum.splits) (metis Inl_Inr_False)+
qed

lemma process_ops_ok:
  assumes "accepts S T" "\<not> poisoned e"
  shows "\<exists>e' r. process_ops S T ops p s e = (e', Inr r) \<and> \<not> poisoned e'"
  using assms(2)
proof (induction ops arbitrary: p s e)
  case (Cons op ops)
  obtain e1 out where 1: "process_op S T op e = (e1, out)" by (cases "process_op S T op e")
  note ok = process_op_ok [OF assms(1) Cons.prems 1]
  then show ?case using Cons.IH [of e1] by (cases out) (auto simp: 1)
qed simp

lemma index_batch_ok:
  assumes "accepts S T" "\<not> poisoned e"
  shows "\<exists>e' r. index_batch S T ops e = (e', Inr r) \<and> \<not> poisoned e' \<and>
    processed_count r + skipped_count r = of_nat (length ops)"
proof -
  obtain e' r where run: "process_batch S T ops e = (e', Inr r)" "\<not> poisoned e'"
    using process_ops_ok [OF assms, of ops 0 0] assms(2) by (auto simp: process_batch_def)
  then show ?thesis using batch_counts [OF run(1)] by (simp add: index_batch_def)
qed

text \<open>A failed attempt uses up a fault.\<close>

lemma try_send_uses_fault:
  assumes "accepts S T" "serving n" "try_send_batch (net_transport S T) a ops n = (n', res)"
  shows "serving n' \<and> length (faults n') \<le> length (faults n) \<and>
    (case res of Inr r \<Rightarrow> processed_count r + skipped_count r = of_nat (length ops)
     | Inl err \<Rightarrow> length (faults n') < length (faults n))"
proof -
  obtain e' r where run: "index_batch S T ops (nodes n a) = (e', Inr r)" "\<not> poisoned e'"
    "processed_count r + skipped_count r = of_nat (length ops)"
    using index_batch_ok [OF assms(1), of "nodes n a" ops] assms(2) by (auto simp: serving_def)
  have "serving (n\<lparr>faults := fs, nodes := (nodes n)(a := e')\<rparr>)" "serving (n\<lparr>faults := fs\<rparr>)"
    "serving (n\<lparr>nodes := (nodes n)(a := e')\<rparr>)" for fs
    using assms(2) run(2) by (auto simp: serving_def)
  then show ?thesis
    using assms(2,3) run
    by (cases "faults n")
      (auto simp: try_send_batch_def net_transport_def net_connect_def net_index_batch_def next_fault_def
        split: fault.splits if_splits)
qed

lemma retry_loop_delivers:
  assumes "accepts S T" "serving n" "length (faults n) < left"
  shows "\<exists>n' ps r. retry_loop (net_transport S T) a ops m base left err n = (n', ps, Inr r) \<and> serving n' \<and>
    length (faults n') \<le> length (faults n) \<and> processed_count r + skipped_count r = of_nat (length ops)"
  using assms(2,3)
proof (induction left arbitrary: err n)
  case (Suc left)
  obtain n1 res where 1: "try_send_batch (net_transport S T) a ops n = (n1, res)"
    by (cases "try_send_batch (net_transport S T) a ops n")
  note step = try_send_uses_fault [OF assms(1) Suc.prems(1) 1]
  show ?case
  proof (cases res)
    case (Inl e)
    then obtain n' ps r where "retry_loop (net_transport S T) a ops m base left (Some e) n1 = (n', ps, Inr r)"
      "serving n'" "length (faults n') \<le> length (faults n1)" "processed_count r + skipped_count r = of_nat (length ops)"
      using Suc.IH [of n1 "Some e"] Suc.prems(2) step by auto
    then show ?thesis using 1 Inl step by (auto simp: Let_def)
  next
    case (Inr r)
    then show ?thesis using 1 step by simp
  qed
qed simp

lemma send_groups_delivers:
  assumes "accepts S T" "serving n" "length (faults n) < unat (max_retry_attempts svc)"
  shows "\<exists>n' ws. send_groups (net_transport S T) svc gs n = (n', [], ws)"
  using assms(2,3)
proof (induction gs arbitrary: n)
  case (Cons g gs)
  obtain t ops where g: "g = (t, ops)" by (cases g)
  obtain n1 ps r where 1: "send_batch_with_retry (net_transport S T) svc t ops n = (n1, ps, Inr r)"
    "serving n1" "length (faults n1) \<le> length (faults n)" "processed_count r + skipped_count r = of_nat (length ops)"
    using retry_loop_delivers [OF assms(1) Cons.prems] unfolding send_batch_with_retry_def by blast
  have "length (faults n1) < unat (max_retry_attempts svc)" using 1(3) Cons.prems(2) by simp
  from Cons.IH [OF 1(2) this] 1 show ?case by (auto simp: g)
qed simp

lemma flush_delivers:
  assumes "accepts S T" "serving n" "length (faults n) < unat (max_retry_attempts svc)" "some_order iter"
  shows "\<exists>svc' n'. flush C iter (net_transport S T) svc n = (svc', n', Inr ()) \<and> serving n'"
proof -
  have ok: "\<exists>svc' n'. flush C iter (net_transport S T) svc n = (svc', n', Inr ())"
  proof (cases "buffer svc = []")
    case False
    obtain n' ws where "send_groups (net_transport S T) (svc\<lparr>buffer := []\<rparr>) (iter (group_items C (buffer svc) [])) n = (n', [], ws)"
      using send_groups_delivers [OF assms(1,2), of "svc\<lparr>buffer := []\<rparr>" "iter (group_items C (buffer svc) [])"] assms(3)
      by auto
    with False show ?thesis by (simp add: flush_def take_buffer_def deliver_def)
  qed (simp add: flush_def)
  then obtain svc' n' where run: "flush C iter (net_transport S T) svc n = (svc', n', Inr ())" by blast
  have "\<forall>a. \<not> poisoned (nodes n' a)"
    by (rule flush_contract(1) [OF alive_contract assms(4) _ _ run]) (use assms(2) in \<open>simp_all add: serving_def\<close>)
  with run show ?thesis by (auto simp: serving_def)
qed

text \<open>C17: Deliveries get through: if the writer of no node is poisoned, the index accepts documents, and fewer calls are refused
  or lost than the sender makes attempts, a flush succeeds, whatever is buffered and whichever calls
  the faults hit, and leaves the nodes in service.\<close>

theorem flush_survives_faults:
  assumes "accepts S T" "serving n" "length (faults n) < unat (max_retry_attempts svc)" "some_order iter"
  shows "\<exists>svc' n'. flush C iter (net_transport S T) svc n = (svc', n', Inr ()) \<and> serving n'"
  by (rule flush_delivers [OF assms])

text \<open>A flush that fails names at least one node, only nodes some buffered item was addressed to,
  and leaves the buffer empty: the items of the failed groups are in no queue any more.\<close>

theorem failed_flush_drops_items:
  assumes "some_order iter" "flush C iter X svc n = (svc', n', Inl err)"
  shows "buffer svc' = [] \<and> failed_nodes err \<noteq> [] \<and>
    set (failed_nodes err) \<subseteq> target_node ` set (decoded C (buffer svc))"
proof -
  have ne: "buffer svc \<noteq> []" using assms(2) by (auto simp: flush_def)
  obtain failed ws where sent: "send_groups X svc' (iter (group_items C (buffer svc) [])) n = (n', failed, ws)"
    "failed_nodes err = failed" "failed \<noteq> []"
    using flush_deliver [OF assms(2) ne] by (elim deliver_result) auto
  have "fst ` set (iter (group_items C (buffer svc) [])) \<subseteq> target_node ` set (decoded C (buffer svc))"
    by (auto simp: set_some_order [OF assms(1)] set_group_items ops_for_def filter_empty_conv)
  then show ?thesis
    using send_groups_failed [OF sent(1)] sent(2,3) flush_emptied [OF assms(2)] by auto
qed

text \<open>The backpressure a failed background flush raises lasts one round: the next round finds the
  buffer empty, contacts no node and clears it, although the items of the failed round were never
  delivered.\<close>

theorem backpressure_clears_without_delivery:
  assumes "ticker_round C iter X svc n = (svc', n')" "is_backpressure_active svc'"
  shows "ticker_round C iter X svc' n' = (clear_backpressure svc', n')"
proof -
  have "buffer svc' = []"
    using assms flush_emptied [of C iter X svc n]
    by (auto simp: ticker_round_def set_backpressure_def clear_backpressure_def split: prod.splits sum.splits)
  then show ?thesis by (simp add: ticker_round_def flush_def)
qed

text \<open>The buffer stays below the batch limit between calls: an \<open>add\<close> that fills it flushes it,
  successfully or not, and under backpressure nothing is buffered at all.\<close>

theorem buffer_stays_below_limit:
  assumes "length (buffer svc) < batch_limit svc" "add C iter X item svc n = (svc', n', res)"
  shows "length (buffer svc') < batch_limit svc' \<and>
    (is_backpressure_active svc \<longrightarrow> svc' = svc \<and> n' = n \<and> res \<noteq> Inr ())"
  using assms flush_emptied
  by (fastforce simp: add_def Let_def split: if_splits prod.splits sum.splits)

section \<open>Concurrent adds and flushes\<close>

text \<open>Tasks that add and flush at the same time, with the items accepted and settled so far: an
  \<open>accept\<close> or \<open>begin_flush\<close> is one critical section of the buffer's mutex, and any number of
  flushes can be waiting for the nodes meanwhile.\<close>

record 'n run =
  run_service :: service
  run_net :: 'n
  in_flight :: "string list list"
  accepted :: "string list"
  acknowledged :: "string list"
  lost_items :: "string list"

inductive service_step ::
  "item_codec \<Rightarrow> (groups \<Rightarrow> groups) \<Rightarrow> 'n transport \<Rightarrow> 'n run \<Rightarrow> 'n run \<Rightarrow> bool" for C iter X where
  accept: "\<not> is_backpressure_active (run_service r) \<Longrightarrow>
    service_step C iter X r
      (r\<lparr>run_service := (run_service r)\<lparr>buffer := buffer (run_service r) @ [item]\<rparr>,
         accepted := accepted r @ [item]\<rparr>)"
| begin_flush: "take_buffer (run_service r) = (items, svc') \<Longrightarrow>
    service_step C iter X r (r\<lparr>run_service := svc', in_flight := in_flight r @ [items]\<rparr>)"
| end_ok: "in_flight r = xs @ items # ys \<Longrightarrow>
    deliver C iter X (run_service r) items (run_net r) = (n', Inr ()) \<Longrightarrow>
    service_step C iter X r
      (r\<lparr>run_net := n', in_flight := xs @ ys, acknowledged := acknowledged r @ items\<rparr>)"
| end_failed: "in_flight r = xs @ items # ys \<Longrightarrow>
    deliver C iter X (run_service r) items (run_net r) = (n', Inl err) \<Longrightarrow>
    service_step C iter X r
      (r\<lparr>run_net := n', in_flight := xs @ ys, lost_items := lost_items r @ items\<rparr>)"
| raise: "service_step C iter X r (r\<lparr>run_service := set_backpressure (run_service r)\<rparr>)"
| clear: "service_step C iter X r (r\<lparr>run_service := clear_backpressure (run_service r)\<rparr>)"

definition start_run :: "service \<Rightarrow> 'n \<Rightarrow> 'n run" where
  "start_run svc n =
     \<lparr>run_service = svc, run_net = n, in_flight = [], accepted = [], acknowledged = [], lost_items = []\<rparr>"

inductive service_reach ::
  "item_codec \<Rightarrow> (groups \<Rightarrow> groups) \<Rightarrow> 'n transport \<Rightarrow> string \<Rightarrow> 'n \<Rightarrow> 'n run \<Rightarrow> bool"
  for C iter X table n where
  start: "service_reach C iter X table n (start_run (new_service table) n)"
| step: "service_reach C iter X table n r \<Longrightarrow> service_step C iter X r r' \<Longrightarrow> service_reach C iter X table n r'"

lemma service_step_conserves:
  "service_step C iter X r r' \<Longrightarrow>
   mset (accepted r) = mset (buffer (run_service r)) + mset (concat (in_flight r)) + mset (acknowledged r) + mset (lost_items r) \<Longrightarrow>
   mset (accepted r') = mset (buffer (run_service r')) + mset (concat (in_flight r')) + mset (acknowledged r') + mset (lost_items r')"
  by (induction rule: service_step.induct)
    (auto simp: take_buffer_def set_backpressure_def clear_backpressure_def)


section \<open>Samples\<close>

definition sample_item :: "string \<Rightarrow> string \<Rightarrow> u64 \<Rightarrow> batch_item" where
  "sample_item target i wt =
     \<lparr>target_node = target, bi_id = i, bi_op_type = 1, bi_writetime = wt, bi_cdc_ttl = None,
      bi_payload_json = print_json (JObject []), bi_collection_deltas = [], bi_partition_key = None\<rparr>"

abbreviation (input) enc :: "batch_item \<Rightarrow> string" where
  "enc \<equiv> item_to_string ref_codec"

lemma some_order_id: "some_order id"
  by (simp add: some_order_def)

theorem groups_are_exact_witness:
  "group_items ref_codec [enc (sample_item ''a'' ''p'' 1), enc (sample_item ''b'' ''q'' 2), enc (sample_item ''a'' ''r'' 3)] [] =
     [(''a'', map operation_of [sample_item ''a'' ''p'' 1, sample_item ''a'' ''r'' 3]),
      (''b'', map operation_of [sample_item ''b'' ''q'' 2])] \<and>
   distinct (map fst (group_items ref_codec [enc (sample_item ''a'' ''p'' 1)] []))"
  using groups_are_exact [OF some_order_id, of ref_codec "[enc (sample_item ''a'' ''p'' 1)]"]
  by (simp add: ref_codec_back push_group_def hm_get_def hm_put_def sample_item_def)

definition dead_transport :: "unit transport" where
  "dead_transport = \<lparr>connect_to = (\<lambda>a n. (n, Inl ''down'')), call_index_batch = (\<lambda>a ops n. (n, Inl ''down''))\<rparr>"


definition sample_service :: service where
  "sample_service = (new_service ''ks.t'')\<lparr>buffer := [enc (sample_item ''a'' ''p'' 1)]\<rparr>"

definition sample_net :: "fault list \<Rightarrow> ref_index net" where
  "sample_net fs = \<lparr>nodes = (\<lambda>a. new_engine ref_empty), faults = fs\<rparr>"

lemma three_attempts:
  "retry_loop X a ops m b 3 lst n = retry_loop X a ops m b (Suc (Suc (Suc 0))) lst n"
  by (simp only: numeral_3_eq_3)

lemmas batch_eval = flush_def take_buffer_def deliver_def send_batch_with_retry_def try_send_batch_def
  net_transport_def net_connect_def net_index_batch_def next_fault_def index_batch_def sample_net_def
  sample_service_def new_service_def sample_item_def ref_codec_back push_group_def operation_of_def
  set_backpressure_def clear_backpressure_def is_backpressure_active_def ticker_round_def add_def
  node_address_def starts_with_def hm_put_def hm_get_def max_writetime_def three_attempts


definition dead_net :: "ref_index net" where
  "dead_net = sample_net [Refused, Refused, Refused]"

lemma one_digit: "digit_char (Suc 0) = CHR ''1''"
proof -
  have "(of_char (digit_char (Suc 0)) :: nat) = of_char (CHR ''1'')"
    by (subst of_char_digit) simp_all
  then show ?thesis by (simp only: of_char_eq_iff)
qed

lemma dead_flush:
  "flush ref_codec id (net_transport ref_serde ref_tantivy) sample_service dead_net =
     (sample_service\<lparr>buffer := []\<rparr>, sample_net [],
      Inl \<lparr>failed_nodes = [''a''], message = ''Failed to flush batches to 1 nodes''\<rparr>)"
  by (simp add: batch_eval dead_net_def show_nat.simps one_digit)

theorem failed_flush_drops_items_witness:
  "set [''a''] \<subseteq> target_node ` set (decoded ref_codec (buffer sample_service))"
  using failed_flush_drops_items [OF some_order_id dead_flush] by simp

theorem backpressure_clears_without_delivery_witness:
  "ticker_round ref_codec id (net_transport ref_serde ref_tantivy)
      (set_backpressure (sample_service\<lparr>buffer := []\<rparr>)) (sample_net []) =
    (clear_backpressure (set_backpressure (sample_service\<lparr>buffer := []\<rparr>)), sample_net [])"
proof (rule backpressure_clears_without_delivery)
  show "ticker_round ref_codec id (net_transport ref_serde ref_tantivy) sample_service dead_net =
      (set_backpressure (sample_service\<lparr>buffer := []\<rparr>), sample_net [])"
    by (simp add: ticker_round_def dead_flush)
qed (simp add: set_backpressure_def is_backpressure_active_def)

theorem buffer_stays_below_limit_witness:
  "let r = add ref_codec id dead_transport ''x'' (new_service ''ks.t'') ()
   in length (buffer (fst r)) < batch_limit (fst r)"
proof -
  have "length (buffer (new_service ''ks.t'')) < batch_limit (new_service ''ks.t'')"
    by (simp add: new_service_def)
  from buffer_stays_below_limit [OF this, of ref_codec id dead_transport "''x''" "()"] show ?thesis
    by (cases "add ref_codec id dead_transport ''x'' (new_service ''ks.t'') ()") (simp add: Let_def)
qed


theorem flush_survives_faults_witness:
  "\<exists>svc' n'. flush ref_codec id (net_transport ref_serde ref_tantivy)
     ((new_service ''t'')\<lparr>buffer := [''x'', ''y'']\<rparr>) \<lparr>nodes = (\<lambda>_. ref_engine), faults = [Refused, ResponseLost]\<rparr> = (svc', n', Inr ()) \<and> serving n'"
  by (rule flush_survives_faults)
    (simp_all add: ref_laws serving_def new_engine_def new_service_def some_order_def)

end
