(* ===== verification/Router_Props.thy ===== *)
theory Router_Props
  imports Router Batch_Props
begin

text \<open>
  The properties of routing (\<open>Cql\<close>, \<open>Router\<close>): the node a partition lives on, what a row's payload
  carries, the pairing of range-delete rows and the ids a range selects, and what happens to rows
  while backpressure is active.
\<close>

section \<open>Target nodes\<close>

lemma hm_get_enumerate: "hm_get (enumerate k xs) i = (if k \<le> i \<and> i < k + length xs then Some (xs ! (i - k)) else None)"
proof (induction xs arbitrary: k)
  case (Cons x xs)
  then show ?case by (auto simp: hm_get_def nth_Cons')
qed simp

lemma hashed_bytes_cong:
  "(\<And>c. c \<in> set cols \<Longrightarrow> get_value row c = get_value row' c) \<Longrightarrow> hashed_bytes F row cols = hashed_bytes F row' cols"
  unfolding hashed_bytes_def by (intro arg_cong [of _ _ concat] map_cong) simp_all

text \<open>Every row of a partition goes to the same node, one of the configured ones, whatever the order
  in which the node addresses were given and whatever the row's other columns; with at least one node
  configured, choosing the node cannot panic.\<close>

theorem partition_has_one_node:
  assumes "node_info R = node_info_of ns" "node_info R' = node_info_of ns'" "mset ns' = mset ns" "ns \<noteq> []"
    and "pk_columns R' = pk_columns R" "\<And>c. c \<in> set (pk_columns R) \<Longrightarrow> get_value row c = get_value row' c"
  shows "\<exists>node \<in> set ns. target_of F R row = Inr node \<and> target_of F R' row' = Inr node"
proof -
  have same: "sort ns' = sort ns" by (rule properties_for_sort) (simp_all add: assms(3))
  let ?i = "unat (xx_hash64 F (hashed_bytes F row (pk_columns R))) mod length ns"
  have i: "?i < length ns" using assms(4) by simp
  then have node: "hm_get (node_info_of ns) ?i = Some (sort ns ! ?i)"
    by (simp add: node_info_of_def hm_get_enumerate)
  have "sort ns ! ?i \<in> set ns" using i by (metis length_sort nth_mem set_sort)
  moreover have "hashed_bytes F row' (pk_columns R) = hashed_bytes F row (pk_columns R)"
    by (rule hashed_bytes_cong) (simp add: assms(6))
  ultimately show ?thesis
    using node assms(4)
    by (intro bexI [of _ "sort ns ! ?i"])
      (simp_all add: target_of_def assms(1,2,5) get_target_node_id_def node_info_of_def same)
qed

section \<open>Backpressure\<close>

lemma flush_keeps_flag: "flush C iter X svc n = (svc', n', res) \<Longrightarrow> is_backpressure_active svc' = is_backpressure_active svc"
  using flush_emptied by (fastforce simp: is_backpressure_active_def)

text \<open>While backpressure is active no row gets through: routing flushes first, but a flush never
  lowers the flag, so even after a successful flush the item is refused and the row is an error.\<close>

theorem backpressure_refuses_rows:
  assumes "is_backpressure_active (fst st)"
  shows "snd (route_forward E R row ty st) \<noteq> Inr () \<and>
    is_backpressure_active (fst (fst (route_forward E R row ty st)))"
proof -
  obtain st1 res where fl: "flush_service E st = (st1, res)" by (cases "flush_service E st")
  then have active: "is_backpressure_active (fst st1)"
    using flush_keeps_flag [of "env_codec E" "env_iter E" "env_transport E" "fst st" "snd st"] assms
    by (auto simp: flush_service_def split: prod.splits)
  then have "enqueue_batch_item E item st1 = (st1, Inl (AddFailed \<lparr>failed_nodes = [],
      message = ''Backpressure active due to previous batch failure''\<rparr>))" for item
    by (cases st1) (simp add: enqueue_batch_item_def add_def)
  then show ?thesis
    using assms fl active by (auto simp: route_forward_def split: sum.splits)
qed

section \<open>Range deletes\<close>

text \<open>The retries of the flush that precedes a range delete resend nothing: the first attempt has
  emptied the buffer, so when it fails the second finds nothing to send and counts as success, and the
  range delete goes on without the operations that were lost.\<close>

theorem flush_retry_sends_nothing:
  "flush_until_ok E (Suc (Suc k)) st = fst (flush_service E st)"
proof -
  obtain st1 res where fl: "flush_service E st = (st1, res)" by (cases "flush_service E st")
  then have "buffer (fst st1) = []"
    using flush_emptied [of "env_codec E" "env_iter E" "env_transport E" "fst st" "snd st"]
    by (auto simp: flush_service_def split: prod.splits)
  then have "flush_service E st1 = (st1, Inr ())"
    by (simp add: flush_service_def flush_def)
  then show ?thesis by (cases res) (simp_all add: fl)
qed

definition integer_types :: "string set" where
  "integer_types = {''int'', ''varint'', ''smallint'', ''tinyint'', ''bigint'', ''counter'', ''timestamp''}"

lemma compare_integers:
  assumes "to_lowercase ty \<in> integer_types" "i64_min_int \<le> a" "a \<le> i64_max_int" "i64_min_int \<le> b" "b \<le> i64_max_int"
  shows "compare_cql_values F (show_int a) (show_int b) ty = cmp_of a b"
proof -
  have "compare_parsed cmp_of parse_i64 (show_int a) (show_int b) = cmp_of a b"
    using assms(2-) by (simp add: compare_parsed_def parse_i64_show)
  then show ?thesis
    using assms(1) by (auto simp: compare_cql_values_def Let_def integer_types_def)
qed

lemma compare_same: "compare_cql_values F v v ty = Equal"
  by (auto simp: compare_cql_values_def Let_def compare_parsed_def f32_total_cmp_def f64_total_cmp_def
      split: option.splits)

definition i64_range :: "int \<Rightarrow> bool" where
  "i64_range x = (i64_min_int \<le> x \<and> x \<le> i64_max_int)"

definition within :: "bool \<Rightarrow> bool \<Rightarrow> int option \<Rightarrow> int option \<Rightarrow> int \<Rightarrow> bool" where
  "within si ei lo hi x =
     ((case lo of None \<Rightarrow> True | Some l \<Rightarrow> if si then l \<le> x else l < x) \<and>
      (case hi of None \<Rightarrow> True | Some h \<Rightarrow> if ei then x \<le> h else x < h))"

definition doc_id_of :: "string list \<times> int \<Rightarrow> string" where
  "doc_id_of d = str_join '':'' (fst d @ [show_int (snd d)])"


text \<open>C38: With several clustering columns the bounds are applied column by column, not to the tuple: under
  an exclusive start bound that fixes the first column to \<open>v\<close> (as in \<open>ck1 = v AND ck2 > x\<close>), no
  document whose first clustering value is \<open>v\<close> is ever selected.\<close>

theorem exclusive_prefix_selects_nothing:
  assumes "ck_columns R = c # cs" "start_ck_values start = Some v # ss" "\<not> start_inclusive start"
    and "str_split (CHR '':'') i = pks @ v # rest" "length pks = length (pk_columns R)"
  shows "i \<notin> set (filter_doc_ids_by_ck_range F R doc_ids start ends ei)"
proof (cases ends)
  case (Cons t ts)
  then show ?thesis
    using assms by (simp add: filter_doc_ids_by_ck_range_def Let_def above_start_def compare_same)
qed (use assms in \<open>simp add: filter_doc_ids_by_ck_range_def Let_def\<close>)

text \<open>The derived debug text of a timestamp.\<close>

definition derived_debug :: "formats \<Rightarrow> bool" where
  "derived_debug F = (\<forall>t. debug_str F (CqlTimestamp t) = ''Timestamp(CqlTimestamp('' @ show_int (sint t) @ ''))'')"

lemma digit_is: "d < 10 \<Longrightarrow> of_char c = 48 + d \<Longrightarrow> digit_char d = c"
  by (simp only: of_char_eq_iff [symmetric, where ?'a = nat] of_char_digit)

lemma digit_texts: "digit_char 0 = CHR ''0''" "digit_char 1 = CHR ''1''" "digit_char 9 = CHR ''9''"
  by (rule digit_is, simp_all)+

lemma parse_i64_debug: "parse_i64 (''Timestamp(CqlTimestamp('' @ s) = None"
  by (simp add: parse_i64_def parse_int_def parse_nat_def digit_val_def)


section \<open>Enqueueing\<close>

lemma enqueue_room:
  assumes "\<not> is_backpressure_active svc" "Suc (length (buffer svc)) < batch_limit svc"
  shows "enqueue_batch_item E item (svc, n) =
    ((svc\<lparr>buffer := buffer svc @ [item_to_string (env_codec E) item]\<rparr>, n), Inr ())"
  using assms by (simp add: enqueue_batch_item_def add_def Let_def)

lemma enqueue_all_room:
  assumes "\<not> is_backpressure_active svc" "length (buffer svc) + length items < batch_limit svc"
  shows "enqueue_all E items (svc, n) =
    ((svc\<lparr>buffer := buffer svc @ map (item_to_string (env_codec E)) items\<rparr>, n), Inr ())"
  using assms
proof (induction items arbitrary: svc)
  case (Cons item items)
  let ?svc = "svc\<lparr>buffer := buffer svc @ [item_to_string (env_codec E) item]\<rparr>"
  have "enqueue_all E items (?svc, n) =
      ((?svc\<lparr>buffer := buffer ?svc @ map (item_to_string (env_codec E)) items\<rparr>, n), Inr ())"
    by (rule Cons.IH) (use Cons.prems in \<open>simp_all add: is_backpressure_active_def\<close>)
  then show ?case using enqueue_room [of svc E item n] Cons.prems by simp
qed simp

lemma flush_until_ok_state:
  "flush_until_ok E k st = (svc', n') \<Longrightarrow>
   is_backpressure_active svc' = is_backpressure_active (fst st) \<and> batch_limit svc' = batch_limit (fst st) \<and>
   (0 < k \<longrightarrow> buffer svc' = [])"
proof (induction k arbitrary: st)
  case (Suc k)
  obtain svc1 n1 res where fl: "flush (env_codec E) (env_iter E) (env_transport E) (fst st) (snd st) = (svc1, n1, res)"
    by (cases "flush (env_codec E) (env_iter E) (env_transport E) (fst st) (snd st)")
  note e = flush_emptied [OF fl]
  show ?case
  proof (cases res)
    case (Inl err)
    then have "flush_until_ok E k (svc1, n1) = (svc', n')"
      using Suc.prems fl by (simp add: flush_service_def)
    from Suc.IH [OF this] e show ?thesis
    proof (cases k)
      case 0
      then show ?thesis using \<open>flush_until_ok E k (svc1, n1) = (svc', n')\<close> e
        by (auto simp: is_backpressure_active_def)
    qed (auto simp: is_backpressure_active_def)
  qed (use Suc.prems fl e in \<open>auto simp: flush_service_def is_backpressure_active_def\<close>)
qed auto

text \<open>A pair of range-delete rows on one stream turns into single deletes: the start row only stores
  its bound, the end row consumes it, asks the node of the partition for its document ids, and buffers
  one delete, at the start row's write time, for exactly the ids that lie in the range; the stream has
  no bound pending afterwards.\<close>

theorem range_pair_becomes_deletes:
  assumes "determine row1 = RangeDeleteStart" "determine row2 = RangeDeleteEnd"
    and "extract_range_delete_start (env_formats E) R row1 = Inr start"
    and "\<not> is_backpressure_active svc" "flush_until_ok E 3 (svc, n) = (svc1, n1)"
    and "env_list_ids E (node_address (start_target_node start)) (start_partition_key start) n1 = (n2, Inr ids)"
    and "matching = filter_doc_ids_by_ck_range (env_formats E) R ids start (ck_bounds (env_formats E) R row2)
           (row_operation row2 = RowRangeDelInclRight)"
    and "length matching < batch_limit svc"
  shows "consume_cdc E R row1 held (svc, n) = (Some start, (svc, n), Inr ()) \<and>
    consume_cdc E R row2 (Some start) (svc, n) =
      (None, (svc1\<lparr>buffer := map (item_to_string (env_codec E)) (map (range_delete_item start) matching)\<rparr>, n2), Inr ())"
proof -
  note st1 = flush_until_ok_state [OF assms(5)]
  have items: "enqueue_all E (map (range_delete_item start) matching) (svc1, n2) =
      ((svc1\<lparr>buffer := buffer svc1 @ map (item_to_string (env_codec E)) (map (range_delete_item start) matching)\<rparr>, n2), Inr ())"
    by (rule enqueue_all_room) (use st1 assms(4,8) in simp_all)
  have "commit_range_delete E R start row2 (svc, n) =
      ((svc1\<lparr>buffer := map (item_to_string (env_codec E)) (map (range_delete_item start) matching)\<rparr>, n2), Inr ())"
    using items st1 assms(6) by (simp add: commit_range_delete_def Let_def assms(5,7))
  then show ?thesis using assms(1-3) by (simp add: consume_cdc_def)
qed

text \<open>An end bound with no start bound pending on its stream is an error that touches nothing, and a
  pre-image row is ignored: neither reaches the batch service or the network.\<close>

lemma unpaired_end_is_error:
  "(determine row = RangeDeleteEnd \<longrightarrow> consume_cdc E R row None st = (None, st, Inl NoMatchingStart)) \<and>
   (determine row = Skip \<longrightarrow> consume_cdc E R row held st = (held, st, Inr ()))"
  by (simp add: consume_cdc_def)

section \<open>Payloads\<close>

lemma json_wf_puts:
  "json_wf (JObject m) \<Longrightarrow> \<forall>e \<in> set es. json_wf (snd e) \<Longrightarrow> json_wf (JObject (fold (\<lambda>e. bt_put (fst e) (snd e)) es m))"
proof (induction es arbitrary: m)
  case (Cons e es)
  have "json_wf (JObject (bt_put (fst e) (snd e) m))"
    using Cons.prems by (intro json_wf_put) simp_all
  then show ?case using Cons by simp
qed simp

lemma cql_to_json_wf: "json_wf (cql_to_json F v)"
proof (induction F v rule: cql_to_json.induct)
  case (16 F pairs)
  show ?case
    using 16 by (simp only: cql_to_json.simps) (rule json_wf_puts, auto)
next
  case (17 F fs)
  show ?case
    using 17 by (simp only: cql_to_json.simps) (rule json_wf_puts, auto split: option.split)
qed (auto simp: number_from_f64_wf number_of_i64_def list_all_iff split: option.split)

definition meta_columns :: "string set" where
  "meta_columns = {''_cdc_stream_id'', ''_cdc_time'', ''_cdc_batch_seq'', ''_cdc_ttl''}"

lemma cdc_meta_wf: "json_wf (JObject (cdc_meta F row))"
  by (auto simp: cdc_meta_def Let_def number_of_i64_def intro!: json_wf_object_put json_wf_empty
      split: option.split simp del: json_wf.simps(6) bt_put.simps)

lemma cdc_meta_get: "c \<notin> meta_columns \<Longrightarrow> bt_get (cdc_meta F row) c = None"
  by (auto simp: cdc_meta_def Let_def bt_get_put meta_columns_def split: option.split simp del: bt_put.simps)

lemma serialize_columns_doc:
  assumes "serialize_columns S F row cols doc ds = (doc', ds')" "json_wf (JObject doc)"
  shows "json_wf (JObject doc') \<and>
    (\<forall>c. bt_get doc' c = (if c \<in> set cols \<and> \<not> collection_exists row c \<and> get_value row c \<noteq> None
      then Some (cql_to_json F (the (get_value row c))) else bt_get doc c))"
  using assms
proof (induction cols arbitrary: doc ds)
  case (Cons col cols)
  show ?case
  proof (cases "collection_exists row col \<or> get_value row col = None")
    case True
    then obtain ds1 where "serialize_columns S F row cols doc ds1 = (doc', ds')"
      using Cons.prems(1) by (auto simp: Let_def split: if_splits)
    from Cons.IH [OF this Cons.prems(2)] True show ?thesis by auto
  next
    case False
    then obtain v where v: "get_value row col = Some v" "\<not> collection_exists row col" by auto
    then have "serialize_columns S F row cols (bt_put col (cql_to_json F v) doc) ds = (doc', ds')"
      using Cons.prems(1) by simp
    moreover have "json_wf (JObject (bt_put col (cql_to_json F v) doc))"
      using Cons.prems(2) cql_to_json_wf by (intro json_wf_put) simp_all
    ultimately show ?thesis using Cons.IH v by (fastforce simp: bt_get_put)
  qed
qed simp


lemma serialize_columns_deltas:
  assumes "serialize_columns S F row cols doc ds = (doc', ds')"
  shows "set ds' \<subseteq> set ds \<union> delta_of_column S F row ` set cols"
  using assms
proof (induction cols arbitrary: doc ds)
  case (Cons col cols)
  then obtain doc1 ds1 where "serialize_columns S F row cols doc1 ds1 = (doc', ds')"
    "set ds1 \<subseteq> insert (delta_of_column S F row col) (set ds)"
    by (auto simp: Let_def split: if_splits option.splits)
  with Cons.IH show ?case by fastforce
qed simp

definition delta_wf :: "serde \<Rightarrow> collection_delta \<Rightarrow> bool" where
  "delta_wf S d =
     ((added_elements_json d = [] \<or> (\<exists>v. from_str S (added_elements_json d) = Some v \<and> json_wf v)) \<and>
      (deleted_elements_json d = [] \<or> (\<exists>xs. from_str S (deleted_elements_json d) = Some (JArray xs) \<and> json_wf (JArray xs))))"

lemma delta_of_column_wf:
  assumes "serde_roundtrip S"
  shows "delta_wf S (delta_of_column S F row c)"
proof -
  have "json_wf (JArray (map (cql_to_json F) xs))" for xs
    by (simp add: list_all_iff cql_to_json_wf)
  then show ?thesis
    using assms cql_to_json_wf unfolding delta_wf_def delta_of_column_def serde_roundtrip_def
    by (auto split: option.split simp del: json_wf.simps)
qed

lemma forwarded_payload:
  assumes "serde_roundtrip (env_serde E)" "forwarded_item E R row OpUpsert = Inr item"
  shows "(\<exists>m. from_str (env_serde E) (bi_payload_json item) = Some (JObject m) \<and> json_wf (JObject m)) \<and>
    list_all (delta_wf (env_serde E)) (bi_collection_deltas item)"
proof -
  let ?S = "env_serde E" and ?F = "env_formats E"
  have item: "bi_payload_json item = fst (row_payload E row OpUpsert)" "bi_collection_deltas item = snd (row_payload E row OpUpsert)"
    using assms(2) by (auto simp: forwarded_item_def Let_def split: sum.splits)
  show ?thesis
  proof (cases "row_operation row = PostImage")
    case True
    have "json_wf (JObject (postimage_columns ?F row cols doc))" if "json_wf (JObject doc)" for cols doc
      using that
    proof (induction cols arbitrary: doc)
      case (Cons c cols)
      then show ?case
        using json_wf_object_put [OF Cons.prems cql_to_json_wf] by (simp split: option.split del: json_wf.simps)
    qed simp
    from this [OF cdc_meta_wf] show ?thesis
      using assms(1) True
      by (simp add: item row_payload_def serialize_postimage_to_json_def serde_roundtrip_def del: json_wf.simps)
  next
    case False
    obtain doc ds where s: "serialize_columns ?S ?F row (non_cdc_columns row) (cdc_meta ?F row) [] = (doc, ds)"
      by (cases "serialize_columns ?S ?F row (non_cdc_columns row) (cdc_meta ?F row) []")
    have "json_wf (JObject doc)" using serialize_columns_doc [OF s cdc_meta_wf] by blast
    moreover have "list_all (delta_wf ?S) ds"
      using serialize_columns_deltas [OF s] delta_of_column_wf [OF assms(1)] by (auto simp: list_all_iff)
    ultimately show ?thesis
      using assms(1) False
      by (simp add: item row_payload_def serialize_cdc_row_def s serde_roundtrip_def Let_def del: json_wf.simps)
  qed
qed



section \<open>Samples\<close>

definition sample_formats :: formats where
  "sample_formats =
     \<lparr>debug_str = (\<lambda>v. ''?''), display_str = (\<lambda>v. ''v''), uuid_str = (\<lambda>u. ''u''),
      f32_str = (\<lambda>f. ''f''), f64_str = (\<lambda>f. ''d''), base64_str = (\<lambda>b. ''b''), decimal_str = (\<lambda>b s. ''n''),
      f32_parse = (\<lambda>s. None), f64_parse = (\<lambda>s. None), uuid_unix = (\<lambda>u. Some (1, 5000)),
      xx_hash64 = (\<lambda>s. of_nat (length s))\<rparr>"

text \<open>A table \<open>(user text, seq int)\<close>, and rows that set \<open>seq\<close> and leave \<open>note\<close> null.\<close>

definition sample_router :: "string list \<Rightarrow> router" where
  "sample_router ns =
     new_router (node_info_of ns) ''ks'' ''t''
       (table_key_info_of [(''seq'', 0, ''clustering'', ''int''), (''user'', 0, ''partition_key'', ''text'')])"

definition sample_row :: "operation_type \<Rightarrow> string \<Rightarrow> i32 \<Rightarrow> cdc_row" where
  "sample_row op user seq =
     \<lparr>row_operation = op, row_stream_id = ''s'', row_time = 0, row_batch_seq_no = 0, row_ttl = None,
      get_value = [''user'' \<mapsto> CqlText user, ''seq'' \<mapsto> CqlInt seq],
      collection_exists = (\<lambda>c. False), is_value_deleted = (\<lambda>c. c = ''note''), get_deleted_elements = (\<lambda>c. []),
      non_cdc_columns = [''user'', ''seq'', ''note'']\<rparr>"

definition sample_env :: "unit ingest_env" where
  "sample_env =
     \<lparr>env_serde = ref_serde, env_formats = sample_formats, env_codec = ref_codec, env_iter = id,
      env_transport = dead_transport, env_list_ids = (\<lambda>a pk n. (n, Inr [''ann:3'', ''ann:7'']))\<rparr>"

lemma sample_router_simps [simp]:
  "node_info (sample_router ns) = node_info_of ns" "pk_columns (sample_router ns) = [''user'']"
  "ck_columns (sample_router ns) = [\<lparr>ck_name = ''seq'', cql_type = ''int''\<rparr>]"
  by (simp_all add: sample_router_def new_router_def table_key_info_of_def sort_by_def)

lemma ref_serde_roundtrip: "serde_roundtrip ref_serde"
  using ref_roundtrip by (simp add: serde_roundtrip_def)

theorem partition_has_one_node_witness:
  "\<exists>node \<in> {''a'', ''b''}. target_of sample_formats (sample_router [''b'', ''a'']) (sample_row RowInsert ''ann'' 3) = Inr node \<and>
     target_of sample_formats (sample_router [''a'', ''b'']) (sample_row RowDelete ''ann'' 7) = Inr node"
proof -
  have "get_value (sample_row RowInsert ''ann'' 3) c = get_value (sample_row RowDelete ''ann'' 7) c"
    if "c \<in> set (pk_columns (sample_router [''b'', ''a'']))" for c
    using that by (simp add: sample_row_def)
  from partition_has_one_node [of "sample_router [''b'', ''a'']" "[''b'', ''a'']" "sample_router [''a'', ''b'']"
      "[''a'', ''b'']", OF _ _ _ _ _ this, of sample_formats]
  show ?thesis by auto
qed

theorem backpressure_refuses_rows_witness:
  "snd (route_forward sample_env (sample_router [''a'']) (sample_row RowInsert ''ann'' 3) OpUpsert
     (set_backpressure (new_service ''ks.t''), ())) \<noteq> Inr ()"
  using backpressure_refuses_rows [of "(set_backpressure (new_service ''ks.t''), ())" sample_env
      "sample_router [''a'']" "sample_row RowInsert ''ann'' 3" OpUpsert]
  by (simp add: set_backpressure_def is_backpressure_active_def)

definition sample_start :: "bool \<Rightarrow> int \<Rightarrow> pending_range_start" where
  "sample_start incl lo =
     \<lparr>start_partition_key = ''ann'', start_target_node = ''a'', start_ck_values = [Some (show_int lo)],
      start_inclusive = incl, start_writetime = 9\<rparr>"


theorem exclusive_prefix_selects_nothing_witness:
  "let R = (sample_router [''a''])\<lparr>ck_columns := [\<lparr>ck_name = ''c1'', cql_type = ''int''\<rparr>, \<lparr>ck_name = ''c2'', cql_type = ''int''\<rparr>]\<rparr>;
       start = (sample_start False 1)\<lparr>start_ck_values := [Some ''1'', Some ''5'']\<rparr>
   in ''ann:1:7'' \<notin> set (filter_doc_ids_by_ck_range sample_formats R [''ann:1:7''] start [Some ''1'', None] True)"
  unfolding Let_def
  by (rule exclusive_prefix_selects_nothing [where v = "''1''" and pks = "[''ann'']" and rest = "[''7'']"])
    (simp_all add: sample_start_def)

text \<open>A range from above 3 up to 9.\<close>

definition sample_pending :: "string \<Rightarrow> pending_range_start" where
  "sample_pending node =
     \<lparr>start_partition_key = ''ann'', start_target_node = node, start_ck_values = [Some (show_int 3)],
      start_inclusive = False, start_writetime = 1000005\<rparr>"

lemma sample_range_start:
  "extract_range_delete_start sample_formats (sample_router [node]) (sample_row RowRangeDelExclLeft ''ann'' 3) =
     Inr (sample_pending node)"
  by (simp add: extract_range_delete_start_def target_of_def get_target_node_id_def node_info_of_def
      hm_get_def joined_key_def key_part_def cql_value_to_key_string_def ck_bounds_def
      extract_writetime_from_timeuuid_def sample_formats_def sample_row_def sample_pending_def)

lemma sample_selected:
  "filter_doc_ids_by_ck_range sample_formats (sample_router [node]) [''ann:3'', ''ann:7''] (sample_pending node)
     (ck_bounds sample_formats (sample_router [node]) (sample_row RowRangeDelInclRight ''ann'' 9)) True = [''ann:7'']"
proof -
  have "filter_doc_ids_by_ck_range sample_formats (sample_router [''a'']) [''ann:3'', ''ann:7''] (sample_pending ''a'')
      [Some (show_int 9)] True = [''ann:7'']"
    by code_simp
  then show ?thesis
    by (simp add: filter_doc_ids_by_ck_range_def sample_pending_def ck_bounds_def sample_row_def cql_value_to_key_string_def)
qed

lemma sample_range_rows:
  "determine (sample_row RowRangeDelExclLeft ''ann'' 3) = RangeDeleteStart"
  "determine (sample_row RowRangeDelInclRight ''ann'' 9) = RangeDeleteEnd"
  "row_operation (sample_row RowRangeDelInclRight ''ann'' 9) = RowRangeDelInclRight"
  by (simp_all add: determine_def sample_row_def)

lemma nothing_to_flush: "buffer svc = [] \<Longrightarrow> flush_until_ok E (Suc k) (svc, n) = (svc, n)"
  by (simp add: flush_service_def flush_def)

theorem range_pair_becomes_deletes_witness:
  "\<exists>start svc1. snd (consume_cdc sample_env (sample_router [''a'']) (sample_row RowRangeDelExclLeft ''ann'' 3) None
       (new_service ''ks.t'', ())) = ((new_service ''ks.t'', ()), Inr ()) \<and>
     consume_cdc sample_env (sample_router [''a'']) (sample_row RowRangeDelInclRight ''ann'' 9) (Some start)
       (new_service ''ks.t'', ()) = (None, (svc1, ()), Inr ()) \<and>
     buffer svc1 = map (item_to_string ref_codec) [range_delete_item start ''ann:7'']"
proof -
  let ?R = "sample_router [''a'']"
  let ?svc = "new_service ''ks.t''"
  let ?start = "sample_pending ''a''"
  have env: "env_formats sample_env = sample_formats" by (simp add: sample_env_def)
  have bp: "\<not> is_backpressure_active ?svc"
    by (simp add: new_service_def is_backpressure_active_def)
  have fl: "flush_until_ok sample_env 3 (?svc, ()) = (?svc, ())"
    unfolding numeral_3_eq_3 by (rule nothing_to_flush) (simp add: new_service_def)
  have ids: "env_list_ids sample_env (node_address (start_target_node ?start)) (start_partition_key ?start) () =
      ((), Inr [''ann:3'', ''ann:7''])"
    by (simp add: sample_env_def)
  have m: "[''ann:7''] = filter_doc_ids_by_ck_range (env_formats sample_env) ?R [''ann:3'', ''ann:7''] ?start
      (ck_bounds (env_formats sample_env) ?R (sample_row RowRangeDelInclRight ''ann'' 9))
      (row_operation (sample_row RowRangeDelInclRight ''ann'' 9) = RowRangeDelInclRight)"
    by (simp add: env sample_selected sample_range_rows(3))
  have room: "length [''ann:7''] < batch_limit ?svc"
    by (simp add: new_service_def)
  from range_pair_becomes_deletes [OF sample_range_rows(1,2) _ bp fl ids m room, of None] sample_range_start
  show ?thesis
    by (intro exI [of _ ?start] exI [of _ "?svc\<lparr>buffer := map (item_to_string ref_codec) [range_delete_item ?start ''ann:7'']\<rparr>"])
      (simp add: sample_env_def)
qed





end
