(* ===== verification/Publication.thy ===== *)
theory Publication
  imports Engine_Props
begin

text \<open>
  From a write the engine holds to a document the reader shows. \<open>settled\<close> strengthens the engine's
  invariant for an index that accepts documents and a reader that is up to date: what a lookup finds is what
  the next commit publishes. Upserts keep it, and a commit with the reload that follows restores it.
\<close>

section \<open>Settled engines\<close>

definition settled :: "serde \<Rightarrow> ('w, 'a, 'd) tantivy \<Rightarrow> ('w, 'd) index_view \<Rightarrow> 'w engine \<Rightarrow> bool" where
  "settled S T V e =
     (engine_inv S T V e \<and>
      (\<forall>i d. find_cached_or_indexed S T e i = Some d \<longrightarrow>
         (\<exists>x \<in> set (pending V (writer e)). \<exists>d'. stored_as S T x d' \<and> doc_id d' = i \<and> doc_writetime d' = doc_writetime d)))"

text \<open>The upserts the index accepts whatever they are merged into: an object payload, and a write time in
  the range of the signed field.\<close>

definition storable :: "serde \<Rightarrow> index_operation \<Rightarrow> bool" where
  "storable S op =
     (op_type_of op = OpUpsert \<and> uint (op_writetime op) \<le> i64_max_int \<and>
      (\<exists>m. from_str S (op_payload_json op) = Some (JObject m)))"

lemma merge_into_object: "\<exists>m'. merge_json v (JObject m) = JObject m'"
  by (cases v) simp_all

lemma upserted_is_object: "storable S op \<Longrightarrow> \<exists>m. upserted_json S existing op = JObject m"
  using merge_into_object
  by (auto simp: storable_def upserted_json_def apply_collection_deltas_def Let_def split: json.split)
    (metis json.distinct json.exhaust)+

lemma storable_is_processed:
  assumes "serde_wf S" "accepts S T" "engine_inv S T V e" "storable S op"
    and "do_upsert S T op e = (e', r)" "\<not> is_stale (find_cached_or_indexed S T e (op_id op)) op"
  shows "r = Processed"
proof -
  let ?u = "upserted_doc S (find_cached_or_indexed S T e (op_id op)) (current_generation e) op"
  have c: "cache_inv S T V e" using assms(3) by (simp add: engine_inv_def)
  have "json_wf (upserted_json S (find_cached_or_indexed S T e (op_id op)) op)"
    using find_wf [OF assms(1) c] by (intro upserted_json_wf [OF assms(1)]) auto
  moreover obtain m where "doc_doc ?u = JObject m" "doc_writetime ?u = op_writetime op"
    using upserted_is_object [OF assms(4)] by (auto simp: upserted_doc_def)
  ultimately obtain d where "parse_document T (to_string S (wrapper_of ?u)) = Inr d"
    using assms(2,4) unfolding accepts_def storable_def wrapper_of_def
    by (metis doc.select_convs(3) upserted_doc_def)
  then show ?thesis
    using assms(2,5,6) by (auto simp: do_upsert_def Let_def accepts_def split: sum.splits) (metis Inl_Inr_False)
qed

lemma filter_other_term:
  "stored_as S T x d \<Longrightarrow> doc_id d \<noteq> i \<Longrightarrow> \<not> has_term T FieldId i x"
  by (simp add: stored_as_def stores_def has_term_def)

lemma upsert_settled:
  assumes laws: "serde_wf S" "writer_laws T V" "storage_laws S T" "reader_laws T V" and "accepts S T"
    and "settled S T V e" "storable S op" "do_upsert S T op e = (e', r)"
  shows "settled S T V e'"
proof (cases "is_stale (find_cached_or_indexed S T e (op_id op)) op")
  case True
  then show ?thesis using assms(6,8) by (simp add: do_upsert_stale)
next
  case False
  have inv: "engine_inv S T V e" using assms(6) by (simp add: settled_def)
  then have inv': "engine_inv S T V e'" using engine_inv_upsert [OF laws(1-3) _ assms(8)] by blast
  have r: "r = Processed" by (rule storable_is_processed [OF laws(1) assms(5) inv assms(7,8) False])
  define u where "u = upserted_doc S (find_cached_or_indexed S T e (op_id op)) (current_generation e) op"
  note eff = do_upsert_fresh [OF False assms(8), folded u_def]
  have hm: "hm_inv (uncommitted_docs e)" using inv by (simp add: inv_defs)
  have get: "hm_get (uncommitted_docs e') (op_id op) = Some u" by (simp add: eff(1) hmap.get_put hm)
  obtain x where x: "x \<in> set (pending V (writer e'))" "has_term T FieldId (op_id op) x"
    using do_upsert_covered(1) [OF laws(1-3) inv assms(8) [unfolded r]] by (auto simp: covered_def)
  have stored: "stored_as S T x u"
    using inv' get x by (auto simp: inv_defs)
  have found: "find_cached_or_indexed S T e' = (find_cached_or_indexed S T e)(op_id op \<mapsto> u)"
    using upsert_refines [OF laws(2,4) inv assms(8)] False by (simp add: spec_upsert_def u_def)
  have kept: "y \<in> set (pending V (writer e'))"
    if "y \<in> set (pending V (writer e))" "stored_as S T y d" "doc_id d \<noteq> op_id op" for y d
    using that filter_other_term [OF that(2,3)] eff(4) r
    by (auto simp: writer_add [OF laws(2)] writer_delete [OF laws(2)])
  show ?thesis
    unfolding settled_def
  proof (intro conjI allI impI)
    fix i d assume d: "find_cached_or_indexed S T e' i = Some d"
    show "\<exists>x \<in> set (pending V (writer e')). \<exists>d'. stored_as S T x d' \<and> doc_id d' = i \<and> doc_writetime d' = doc_writetime d"
    proof (cases "i = op_id op")
      case True
      then have "d = u" using d by (simp add: found)
      moreover have "doc_id u = i" using True by (simp add: u_def upserted_doc_def)
      ultimately show ?thesis using x(1) stored by blast
    next
      case False
      then have "find_cached_or_indexed S T e i = Some d" using d by (simp add: found)
      then obtain y d' where "y \<in> set (pending V (writer e))" "stored_as S T y d'" "doc_id d' = i"
        "doc_writetime d' = doc_writetime d"
        using assms(6) unfolding settled_def by blast
      then show ?thesis using kept False by blast
    qed
  qed (rule inv')
qed

lemma batch_settled:
  assumes "serde_wf S" "writer_laws T V" "storage_laws S T" "reader_laws T V" "accepts S T"
    and "settled S T V e" "list_all (storable S) ops"
  shows "settled S T V (fst (process_batch S T ops e))"
proof (rule process_batch_invariant [of ops "settled S T V" S T e _ "snd (process_batch S T ops e)"])
  fix op e1 e2 r
  assume "op \<in> set ops" "settled S T V e1" "process_op S T op e1 = (e2, r)"
  moreover have "storable S op" using assms(7) \<open>op \<in> set ops\<close> by (simp add: list_all_iff)
  ultimately show "settled S T V e2"
    using upsert_settled [OF assms(1-5)] by (auto simp: process_op_def storable_def)
qed (simp_all add: assms(6))

section \<open>What a commit publishes\<close>

text \<open>A write a settled engine holds is, once committed and reloaded, the one document of its id the reader shows.\<close>

lemma held_is_published:
  assumes "writer_laws T V" "settled S T V e" "holds_write S T e op" "commit_ok T (writer e)" "\<not> poisoned e"
  shows "\<exists>x d. filter (has_term T FieldId (op_id op)) (visible V (writer (reload_reader T (commit_tick T False e)))) = [x] \<and>
    stored_as S T x d \<and> op_writetime op \<le> doc_writetime d"
proof -
  have inv: "engine_inv S T V e" using assms(2) by (simp add: settled_def)
  obtain d0 where "find_cached_or_indexed S T e (op_id op) = Some d0" "op_writetime op \<le> doc_writetime d0"
    using assms(3) by (auto simp: holds_write_def is_stale_iff)
  then obtain x d where x: "x \<in> set (pending V (writer e))" "stored_as S T x d" "doc_id d = op_id op"
    "op_writetime op \<le> doc_writetime d"
    using assms(2) unfolding settled_def by metis
  have "cache_inv S T V e" using inv by (simp add: engine_inv_def)
  then have vis: "visible V (writer (reload_reader T (commit_tick T False e))) = pending V (writer e)"
    using commit_tick_ok(2) [OF assms(1) _ assms(4,5)] by (simp add: reload_reader_def writer_reload [OF assms(1)])
  let ?xs = "filter (has_term T FieldId (op_id op)) (pending V (writer e))"
  have "x \<in> set ?xs" using x by (simp add: stored_as_def stores_def has_term_def)
  moreover have "length ?xs \<le> 1" using inv by (simp add: inv_defs sound_docs_def)
  ultimately have "?xs = [x]" by (cases ?xs) auto
  with x vis show ?thesis by auto
qed

text \<open>Publishing settles an engine, whatever was cached, and a fresh one is settled.\<close>

lemma publish_settles:
  assumes "writer_laws T V" "reader_laws T V" "engine_inv S T V e" "commit_ok T (writer e)" "\<not> poisoned e"
  shows "settled S T V (reload_reader T (commit_tick T False e))"
proof -
  let ?e = "reload_reader T (commit_tick T False e)"
  have c: "cache_inv S T V e" using assms(3) by (simp add: engine_inv_def)
  note tick = commit_tick_ok [OF assms(1) c assms(4,5)]
  have inv: "engine_inv S T V ?e"
    using engine_inv_reload [OF assms(1) engine_inv_commit [OF assms(1,3)]] assms(4) by blast
  have vis: "visible V (writer ?e) = pending V (writer ?e)" "uncommitted_docs ?e = []"
    using tick by (simp_all add: reload_reader_def writer_reload [OF assms(1)])
  have sound: "sound_docs S T (visible V (writer ?e))" using inv by (simp add: inv_defs)
  have "\<exists>x \<in> set (pending V (writer ?e)). \<exists>d'. stored_as S T x d' \<and> doc_id d' = i \<and> doc_writetime d' = doc_writetime d"
    if "find_cached_or_indexed S T ?e i = Some d" for i d
  proof -
    have "find_indexed S T (writer ?e) i = Some d"
      using that vis(2) by (simp add: find_cached_or_indexed_def hm_get_def)
    then obtain x xs where x: "filter (has_term T FieldId i) (visible V (writer ?e)) = x # xs" "stored_doc S T i x = Some d"
      using find_indexed_visible [OF assms(2) sound, of i] by (auto split: list.splits)
    then have "x \<in> set (visible V (writer ?e)) \<and> has_term T FieldId i x" using filter_set_Cons by fast
    then obtain d' where d': "stored_as S T x d'" "doc_id d' = i" "x \<in> set (pending V (writer ?e))"
      using sound vis(1) by (auto simp: sound_docs_def stored_as_def stores_def has_term_def)
    then show ?thesis using stored_doc_back [OF d'(1)] x(2) by (intro bexI [of _ x] exI [of _ d']) auto
  qed
  with inv show ?thesis by (simp add: settled_def)
qed

lemma fresh_settled:
  assumes "fresh_index V w" "reader_laws T V"
  shows "settled S T V (new_engine w)"
proof -
  have "sound_docs S T (visible V w)" using assms(1) by (simp add: fresh_index_def sound_docs_def)
  then have "find_cached_or_indexed S T (new_engine w) i = None" for i
    using find_indexed_visible [OF assms(2), of S w i] assms(1)
    by (simp add: find_cached_or_indexed_def new_engine_def hm_get_def fresh_index_def)
  then show ?thesis using assms(1) by (simp add: settled_def inv_defs new_engine_def fresh_index_def sound_docs_def)
qed

end
