(* ===== verification/Pipeline.thy ===== *)
theory Pipeline
  imports Router_Props Publication
begin

text \<open>
  The path of a row through the services: rows of several streams are consumed one
  by one (\<open>cdc/consumer.rs\<close>), rounds of the ticker between them, the batch service sends what it buffered, the nodes hold the writes, and their readers show them
  after the next commit. The root theory states what follows for the services together.
\<close>

section \<open>Runs of the ingestor\<close>

text \<open>Rows of any number of streams, each stream with its own consumer (\<open>ConsumerFactory::new_consumer\<close>), and the
  rounds of the ticker between them, in any order, up to the first error or failed round; the batch service is
  shared.\<close>

datatype ingest_event = Row string cdc_row | Tick

datatype ingest_failure = RowFailed string ingest_error | TickFailed flush_error

fun ingest ::
  "'n ingest_env \<Rightarrow> router \<Rightarrow> ingest_event list \<Rightarrow> (string \<Rightarrow> consumer) \<Rightarrow> 'n ingest_state \<Rightarrow>
   (string \<Rightarrow> consumer) \<times> 'n ingest_state \<times> (ingest_failure + unit)" where
  "ingest E R [] helds st = (helds, st, Inr ())"
| "ingest E R (Row s row # events) helds st =
     (case consume_cdc E R row (helds s) st of
        (held, st', Inl e) \<Rightarrow> (helds(s := held), st', Inl (RowFailed s e))
      | (held, st', Inr _) \<Rightarrow> ingest E R events (helds(s := held)) st')"
| "ingest E R (Tick # events) helds st =
     (case flush_service E st of
        (st', Inl e) \<Rightarrow> (helds, (set_backpressure (fst st'), snd st'), Inl (TickFailed e))
      | (st', Inr _) \<Rightarrow> ingest E R events helds (clear_backpressure (fst st'), snd st'))"

fun rows_of :: "ingest_event list \<Rightarrow> cdc_row list" where
  "rows_of [] = []"
| "rows_of (Row s row # events) = row # rows_of events"
| "rows_of (Tick # events) = rows_of events"

text \<open>A round of the ticker in a run is the batch service's.\<close>

lemma tick_is_ticker_round:
  "fst (snd (ingest E R [Tick] helds (svc, n))) = ticker_round (env_codec E) (env_iter E) (env_transport E) svc n"
  by (auto simp: flush_service_def ticker_round_def split: prod.split sum.split)

text \<open>The ingestor's environment over nodes that run the engine, with the laws of what is not modelled.\<close>

definition on_nodes ::
  "serde \<Rightarrow> ('w, 'a, 'd) tantivy \<Rightarrow> ('w, 'd) index_view \<Rightarrow> 'w net ingest_env \<Rightarrow> bool" where
  "on_nodes S T V E =
     (serde_wf S \<and> writer_laws T V \<and> storage_laws S T \<and> reader_laws T V \<and>
      codec_laws (env_codec E) \<and> some_order (env_iter E) \<and> env_transport E = net_transport S T)"

text \<open>Every item so far is still buffered, or \<open>H\<close> says of its operation what an answered batch establishes. Only
  operations with \<open>p\<close> are buffered, whose batches keep \<open>I\<close> of the engines.\<close>

definition tracked ::
  "(index_operation \<Rightarrow> bool) \<Rightarrow> (string \<Rightarrow> 'w engine \<Rightarrow> bool) \<Rightarrow> ('w engine \<Rightarrow> index_operation \<Rightarrow> bool) \<Rightarrow>
   item_codec \<Rightarrow> batch_item list \<Rightarrow> 'w net ingest_state \<Rightarrow> bool" where
  "tracked p I H C items st =
     ((\<forall>a. I a (nodes (snd st) a)) \<and>
      (\<forall>x \<in> set (decoded C (buffer (fst st))). p (operation_of x)) \<and>
      (\<forall>x \<in> set items. x \<in> set (decoded C (buffer (fst st))) \<or>
         H (nodes (snd st) (node_address (target_node x))) (operation_of x)))"

lemma decoded_append [simp]: "decoded C (xs @ ys) = decoded C xs @ decoded C ys"
  by (induction xs) (auto split: option.splits)

lemma flush_tracked:
  assumes "on_nodes S T V E" "batch_contract S T p I H" "tracked p I H (env_codec E) items (svc, n)"
    and "flush (env_codec E) (env_iter E) (env_transport E) svc n = (svc', n', Inr ())"
  shows "tracked p I H (env_codec E) items (svc', n') \<and> buffer svc' = []"
proof -
  have iter: "some_order (env_iter E)"
    and run: "flush (env_codec E) (env_iter E) (net_transport S T) svc n = (svc', n', Inr ())"
    using assms(1,4) by (simp_all add: on_nodes_def)
  have I: "\<forall>a. I a (nodes n a)" and p: "\<forall>x \<in> set (decoded (env_codec E) (buffer svc)). p (operation_of x)"
    using assms(3) by (simp_all add: tracked_def)
  show ?thesis
    using assms(3) flush_contract [OF assms(2) iter I p run] flush_emptied [OF assms(4)]
    by (auto simp: tracked_def)
qed

lemma add_tracked:
  assumes "on_nodes S T V E" "batch_contract S T p I H" "tracked p I H (env_codec E) items (svc, n)"
    and "p (operation_of item)" "enqueue_batch_item E item (svc, n) = (st', Inr ())"
  shows "tracked p I H (env_codec E) (item # items) st'"
proof -
  let ?svc = "svc\<lparr>buffer := buffer svc @ [item_to_string (env_codec E) item]\<rparr>"
  have put: "tracked p I H (env_codec E) (item # items) (?svc, n)"
    using assms(1,3,4) by (auto simp: tracked_def on_nodes_def codec_laws_def)
  show ?thesis
    using assms(5) put flush_tracked [OF assms(1,2) put]
    by (auto simp: enqueue_batch_item_def add_def Let_def split: if_splits prod.splits sum.splits)
qed

lemma add_all_tracked:
  assumes "on_nodes S T V E" "batch_contract S T p I H" "tracked p I H (env_codec E) items (svc, n)"
    and "\<forall>item \<in> set new. p (operation_of item)" "enqueue_all E new (svc, n) = (st', Inr ())"
  shows "tracked p I H (env_codec E) (new @ items) st'"
  using assms(3-5)
proof (induction new arbitrary: svc n items)
  case (Cons item new)
  obtain svc1 n1 where 1: "enqueue_batch_item E item (svc, n) = ((svc1, n1), Inr ())"
    "enqueue_all E new (svc1, n1) = (st', Inr ())"
    using Cons.prems(3) by (auto split: prod.splits sum.splits)
  have "p (operation_of item)" "\<forall>item \<in> set new. p (operation_of item)" using Cons.prems(2) by simp_all
  from Cons.IH [OF add_tracked [OF assms(1,2) Cons.prems(1) this(1) 1(1)] this(2) 1(2)]
  show ?case by (auto simp: tracked_def)
qed simp

text \<open>A row that is ignored or forwarded as an operation with \<open>p\<close>.\<close>

definition forwards :: "'n ingest_env \<Rightarrow> router \<Rightarrow> (index_operation \<Rightarrow> bool) \<Rightarrow> cdc_row \<Rightarrow> bool" where
  "forwards E R p row =
     (determine row = Skip \<or>
      (\<exists>t. determine row = Forward t \<and> (\<forall>item. forwarded_item E R row t = Inr item \<longrightarrow> p (operation_of item))))"

text \<open>What a row asked for is in the items.\<close>

definition forwarded_in :: "'n ingest_env \<Rightarrow> router \<Rightarrow> batch_item list \<Rightarrow> cdc_row \<Rightarrow> bool" where
  "forwarded_in E R items row =
     (\<forall>t. determine row = Forward t \<longrightarrow> (\<exists>item \<in> set items. forwarded_item E R row t = Inr item))"

lemma forwarded_in_more: "forwarded_in E R items row \<Longrightarrow> set items \<subseteq> set items' \<Longrightarrow> forwarded_in E R items' row"
  unfolding forwarded_in_def by blast

lemma forward_tracked:
  assumes "on_nodes S T V E" "batch_contract S T p I H" "tracked p I H (env_codec E) items (svc, n)"
    and "\<forall>item. forwarded_item E R row t = Inr item \<longrightarrow> p (operation_of item)"
    and "route_forward E R row t (svc, n) = (st', Inr ())"
  shows "\<exists>item. forwarded_item E R row t = Inr item \<and> tracked p I H (env_codec E) (item # items) st'"
proof (cases "is_backpressure_active svc")
  case True
  then show ?thesis
    using assms(5) flush_emptied [of "env_codec E" "env_iter E" "env_transport E" svc n]
    by (auto simp: route_forward_def flush_service_def enqueue_batch_item_def add_def is_backpressure_active_def
        split: prod.splits sum.splits)
next
  case False
  then show ?thesis
    using assms(4,5) add_tracked [OF assms(1-3)]
    by (auto simp: route_forward_def split: sum.splits)
qed

lemma row_tracked:
  assumes "on_nodes S T V E" "batch_contract S T p I H" "forwards E R p row"
    and "tracked p I H (env_codec E) items (svc, n)" "consume_cdc E R row held (svc, n) = (held', st', Inr ())"
  shows "\<exists>new. tracked p I H (env_codec E) (new @ items) st' \<and> forwarded_in E R new row"
proof -
  consider "determine row = Skip" |
    t where "determine row = Forward t" "\<forall>item. forwarded_item E R row t = Inr item \<longrightarrow> p (operation_of item)"
    using assms(3) by (auto simp: forwards_def)
  then show ?thesis
  proof cases
    case 1
    then show ?thesis using assms(4,5) by (intro exI [of _ "[]"]) (simp add: consume_cdc_def forwarded_in_def)
  next
    case 2
    have "route_forward E R row t (svc, n) = (st', Inr ())"
      using assms(5) 2(1) by (auto simp: consume_cdc_def split: prod.splits)
    from forward_tracked [OF assms(1,2,4) 2(2) this] obtain item where
      "forwarded_item E R row t = Inr item" "tracked p I H (env_codec E) (item # items) st'"
      by blast
    then show ?thesis using 2(1) by (intro exI [of _ "[item]"]) (simp add: forwarded_in_def)
  qed
qed

lemma ingest_tracked:
  assumes "on_nodes S T V E" "batch_contract S T p I H" "list_all (forwards E R p) (rows_of events)"
    and "tracked p I H (env_codec E) items (svc, n)" "ingest E R events helds (svc, n) = (helds', st', Inr ())"
  shows "\<exists>new. tracked p I H (env_codec E) (new @ items) st' \<and> list_all (forwarded_in E R new) (rows_of events)"
  using assms(3-5)
proof (induction events arbitrary: items svc n helds)
  case (Cons event events)
  show ?case
  proof (cases event)
    case (Row s row)
    obtain held svc1 n1 where 1: "consume_cdc E R row (helds s) (svc, n) = (held, (svc1, n1), Inr ())"
      "ingest E R events (helds(s := held)) (svc1, n1) = (helds', st', Inr ())"
      using Cons.prems(3) Row by (auto split: prod.splits sum.splits)
    have fwd: "forwards E R p row" "list_all (forwards E R p) (rows_of events)" using Cons.prems(1) Row by simp_all
    obtain new1 where new1: "tracked p I H (env_codec E) (new1 @ items) (svc1, n1)" "forwarded_in E R new1 row"
      using row_tracked [OF assms(1,2) fwd(1) Cons.prems(2) 1(1)] by blast
    obtain new where "tracked p I H (env_codec E) (new @ new1 @ items) st'" "list_all (forwarded_in E R new) (rows_of events)"
      using Cons.IH [OF fwd(2) new1(1) 1(2)] by blast
    with new1(2) show ?thesis
      by (intro exI [of _ "new @ new1"]) (auto simp: Row list_all_iff intro: forwarded_in_more)
  next
    case Tick
    obtain svc1 n1 where fl: "flush (env_codec E) (env_iter E) (env_transport E) svc n = (svc1, n1, Inr ())"
      and rest: "ingest E R events helds (clear_backpressure svc1, n1) = (helds', st', Inr ())"
      using Cons.prems(3) Tick by (auto simp: flush_service_def split: prod.splits sum.splits)
    have "tracked p I H (env_codec E) items (clear_backpressure svc1, n1)"
      using flush_tracked [OF assms(1,2) Cons.prems(2) fl] by (auto simp: tracked_def clear_backpressure_def)
    with Cons.IH [OF _ _ rest] Cons.prems(1) show ?thesis by (simp add: Tick)
  qed
qed (auto intro: exI [of _ "[]"])

text \<open>A run without an error, then a flush.\<close>

lemma ingested_and_flushed:
  assumes "on_nodes S T V E" "batch_contract S T p I H" "list_all (forwards E R p) (rows_of events)"
    and "\<forall>a. I a (nodes n a)" "buffer svc = []"
    and "ingest E R events helds (svc, n) = (helds', st1, Inr ())"
    and "flush_service E st1 = ((svc', n'), Inr ())"
  shows "buffer svc' = []" "\<forall>a. I a (nodes n' a)"
    and "row \<in> set (rows_of events) \<Longrightarrow> determine row = Forward t \<Longrightarrow>
      \<exists>item. forwarded_item E R row t = Inr item \<and>
        H (nodes n' (node_address (target_node item))) (operation_of item)"
proof -
  have "tracked p I H (env_codec E) [] (svc, n)"
    using assms(4,5) by (simp add: tracked_def)
  from ingest_tracked [OF assms(1-3) this assms(6)] obtain new where
    new: "tracked p I H (env_codec E) new st1" "list_all (forwarded_in E R new) (rows_of events)"
    by auto
  obtain svc1 n1 where st1: "st1 = (svc1, n1)" by (cases st1)
  have "flush (env_codec E) (env_iter E) (env_transport E) svc1 n1 = (svc', n', Inr ())"
    using assms(7) by (auto simp: st1 flush_service_def split: prod.splits)
  from flush_tracked [OF assms(1,2) new(1) [unfolded st1] this]
  have final: "tracked p I H (env_codec E) new (svc', n')" "buffer svc' = []" by simp_all
  then show "buffer svc' = []" "\<forall>a. I a (nodes n' a)" by (simp_all add: tracked_def)
  assume "row \<in> set (rows_of events)" "determine row = Forward t"
  then obtain x where "x \<in> set new" "forwarded_item E R row t = Inr x"
    using new(2) by (auto simp: list_all_iff forwarded_in_def)
  with final show "\<exists>item. forwarded_item E R row t = Inr item \<and>
      H (nodes n' (node_address (target_node item))) (operation_of item)"
    by (intro exI [of _ x]) (auto simp: tracked_def)
qed

lemma forwarded_fields:
  "forwarded_item E R row t = Inr item \<Longrightarrow>
   target_of (env_formats E) R row = Inr (target_node item) \<and>
   bi_id item = joined_key (env_formats E) row (full_pk_columns R) \<and>
   bi_partition_key item = Some (joined_key (env_formats E) row (pk_columns R)) \<and>
   op_type_of (operation_of item) = t \<and>
   extract_writetime_from_timeuuid (env_formats E) (row_time row) = Inr (bi_writetime item)"
  by (auto simp: forwarded_item_def operation_of_def op_type_of_def Let_def split: sum.splits)

section \<open>Streams of writes\<close>

text \<open>The rows that write a document, and those a stream of writes ignores.\<close>

definition writes_only :: "cdc_row list \<Rightarrow> bool" where
  "writes_only rows = list_all (\<lambda>row. determine row \<in> {Forward OpUpsert, Skip}) rows"

lemma writes_forward_upserts:
  "writes_only rows \<Longrightarrow> list_all (forwards E R (\<lambda>op. op_type_of op = OpUpsert)) rows"
  using forwarded_fields [of E R _ OpUpsert] by (auto simp: writes_only_def forwards_def list_all_iff)

lemma settled_contract:
  assumes "serde_wf S" "writer_laws T V" "storage_laws S T" "reader_laws T V" "accepts S T"
  shows "batch_contract S T (storable S) (\<lambda>_. settled S T V) (holds_write S T)"
proof -
  have "settled S T V e'" if "list_all (storable S) ops" "settled S T V e" "process_batch S T ops e = (e', res)" for ops e e' res
    using batch_settled [OF assms that(2,1)] that(3) by simp
  moreover have "list_all (\<lambda>op. op_type_of op = OpUpsert) ops" if "list_all (storable S) ops" for ops
    using that by (simp add: list_all_iff storable_def)
  ultimately show ?thesis
    using upserts_contract [OF assms(1-4)] unfolding batch_contract_def settled_def by blast
qed

text \<open>Write times in the range of the index's signed field.\<close>

definition times_in_range :: "formats \<Rightarrow> cdc_row list \<Rightarrow> bool" where
  "times_in_range F rows =
     list_all (\<lambda>row. case extract_writetime_from_timeuuid F (row_time row) of
       Inl _ \<Rightarrow> True | Inr w \<Rightarrow> uint w \<le> i64_max_int) rows"

lemma forwarded_storable:
  assumes "serde_roundtrip (env_serde E)" "times_in_range (env_formats E) rows" "row \<in> set rows"
    and "forwarded_item E R row OpUpsert = Inr item"
  shows "storable (env_serde E) (operation_of item)"
proof -
  have "extract_writetime_from_timeuuid (env_formats E) (row_time row) = Inr (bi_writetime item)"
    using forwarded_fields [OF assms(4)] by blast
  moreover have "case extract_writetime_from_timeuuid (env_formats E) (row_time row) of Inl _ \<Rightarrow> True | Inr w \<Rightarrow> uint w \<le> i64_max_int"
    using assms(2,3) by (simp add: times_in_range_def list_all_iff)
  ultimately have "uint (bi_writetime item) \<le> i64_max_int" by simp
  then show ?thesis
    using forwarded_payload [OF assms(1,4)] forwarded_fields [OF assms(4)]
    by (auto simp: storable_def operation_of_def op_type_of_def)
qed

lemma writes_forward_storable:
  assumes "serde_roundtrip (env_serde E)" "times_in_range (env_formats E) rows" "writes_only rows"
  shows "list_all (forwards E R (storable (env_serde E))) rows"
  using forwarded_storable [OF assms(1,2)] assms(3) by (auto simp: writes_only_def forwards_def list_all_iff)

text \<open>What is published of a row that was written, after a run without an error and a flush.\<close>

lemma published_row:
  assumes "on_nodes S T V E" "accepts S T" "env_serde E = S" "serde_roundtrip S"
    and "\<forall>a. settled S T V (nodes n a)" "buffer svc = []" "writes_only (rows_of events)"
    and "times_in_range (env_formats E) (rows_of events)"
    and "ingest E R events helds (svc, n) = (helds', st1, Inr ())"
    and "flush_service E st1 = ((svc', n'), Inr ())"
    and "row \<in> set (rows_of events)" "determine row \<noteq> Skip" "target_of (env_formats E) R row = Inr target"
    and "commit_ok T (writer (nodes n' (node_address target)))" "\<not> poisoned (nodes n' (node_address target))"
  obtains x d w where
    "filter (has_term T FieldId (joined_key (env_formats E) row (full_pk_columns R)))
       (visible V (writer (reload_reader T (commit_tick T False (nodes n' (node_address target)))))) = [x]"
    "stored_as S T x d" "extract_writetime_from_timeuuid (env_formats E) (row_time row) = Inr w" "w \<le> doc_writetime d"
    "x \<in> set (visible V (writer (reload_reader T (commit_tick T False (nodes n' (node_address target))))))"
    "has_term T FieldId (joined_key (env_formats E) row (full_pk_columns R)) x"
proof -
  let ?key = "joined_key (env_formats E) row (full_pk_columns R)"
  have laws: "serde_wf S" "writer_laws T V" "storage_laws S T" "reader_laws T V"
    using assms(1) by (simp_all add: on_nodes_def)
  have upsert: "determine row = Forward OpUpsert" using assms(7,11,12) by (auto simp: writes_only_def list_all_iff)
  note flushed = ingested_and_flushed [OF assms(1) settled_contract [OF laws assms(2)]
      writes_forward_storable [of E "rows_of events" R, unfolded assms(3), OF assms(4,8,7)] assms(5,6,9,10)]
  obtain item where item: "forwarded_item E R row OpUpsert = Inr item"
    "holds_write S T (nodes n' (node_address (target_node item))) (operation_of item)"
    using flushed(3) [OF assms(11) upsert] by blast
  have at_target: "target_node item = target" "bi_id item = ?key"
    "extract_writetime_from_timeuuid (env_formats E) (row_time row) = Inr (bi_writetime item)"
    using forwarded_fields [OF item(1)] assms(13) by auto
  have "settled S T V (nodes n' (node_address target))" "holds_write S T (nodes n' (node_address target)) (operation_of item)"
    using flushed(2) item(2) at_target(1) by simp_all
  from held_is_published [OF laws(2) this assms(14,15)] obtain x d where
    x: "filter (has_term T FieldId ?key)
       (visible V (writer (reload_reader T (commit_tick T False (nodes n' (node_address target)))))) = [x]"
    "stored_as S T x d" "bi_writetime item \<le> doc_writetime d"
    by (auto simp: operation_of_def at_target(2))
  show thesis
    using that [OF x(1,2) at_target(3) x(3)] filter_set_Cons [OF x(1)] by blast
qed

section \<open>Samples\<close>

definition piped_env :: "ref_index net ingest_env" where
  "piped_env =
     \<lparr>env_serde = ref_serde, env_formats = sample_formats, env_codec = ref_codec, env_iter = id,
      env_transport = net_transport ref_serde ref_tantivy,
      env_list_ids = (\<lambda>a pk n. (n, Inr (list_document_ids_by_partition_key ref_tantivy (nodes n a) pk)))\<rparr>"

text \<open>One row of one stream, and a round of the ticker after it.\<close>

abbreviation (input) piped_row :: cdc_row where
  "piped_row \<equiv> sample_row RowInsert ''ann'' 3"

abbreviation (input) piped_net :: "ref_index net" where
  "piped_net \<equiv> sample_net [Refused, ResponseLost]"

lemma piped_on_nodes: "on_nodes ref_serde ref_tantivy ref_view piped_env"
  by (simp add: on_nodes_def piped_env_def ref_laws codec_laws_def ref_codec_back some_order_def)

lemma piped_item: "\<exists>item. forwarded_item piped_env (sample_router [''n'']) (sample_row op u k) t = Inr item"
  by (simp add: forwarded_item_def target_of_def get_target_node_id_def piped_env_def sample_formats_def
      extract_writetime_from_timeuuid_def node_info_of_def hm_get_def Let_def)

abbreviation (input) no_starts :: "string \<Rightarrow> consumer" where
  "no_starts \<equiv> \<lambda>_. new_consumer"

lemma piped_consumed:
  assumes "determine (sample_row op u k) = Forward t"
  shows "\<exists>svc. ingest piped_env (sample_router [''n'']) [Row ''s'' (sample_row op u k)] no_starts (new_service ''ks.t'', n) =
     (no_starts, (svc, n), Inr ()) \<and> max_retry_attempts svc = 3"
proof -
  obtain item where item: "forwarded_item piped_env (sample_router [''n'']) (sample_row op u k) t = Inr item"
    using piped_item by blast
  have "\<not> is_backpressure_active (new_service ''ks.t'')"
    by (simp add: new_service_def is_backpressure_active_def)
  then show ?thesis
    using assms item enqueue_room [of "new_service ''ks.t''" piped_env item n]
    by (simp add: consume_cdc_def route_forward_def) (simp add: new_service_def fun_upd_idem)
qed

text \<open>Fewer than three calls fail; the flush gets through.\<close>

lemma piped_flush:
  assumes "serving n" "length (faults n) < 3" "max_retry_attempts svc = 3"
  obtains svc' n' where "flush_service piped_env (svc, n) = ((svc', n'), Inr ())" "serving n'"
proof -
  have "\<exists>svc' n'. flush ref_codec id (net_transport ref_serde ref_tantivy) svc n = (svc', n', Inr ()) \<and> serving n'"
    by (rule flush_delivers) (simp_all add: ref_laws some_order_def assms)
  then show thesis using that by (auto simp: flush_service_def piped_env_def)
qed

lemma piped_flushed:
  assumes "determine (sample_row op u k) = Forward t" "serving n" "length (faults n) < 3"
  obtains svc svc' n' where
    "ingest piped_env (sample_router [''n'']) [Row ''s'' (sample_row op u k)] no_starts (new_service ''ks.t'', n) =
       (no_starts, (svc, n), Inr ())"
    "flush_service piped_env (svc, n) = ((svc', n'), Inr ())" "serving n'"
proof -
  obtain svc where svc: "ingest piped_env (sample_router [''n'']) [Row ''s'' (sample_row op u k)] no_starts (new_service ''ks.t'', n) =
       (no_starts, (svc, n), Inr ())" "max_retry_attempts svc = 3"
    using piped_consumed [OF assms(1)] by blast
  with piped_flush [OF assms(2,3) svc(2)] that show thesis by metis
qed

text \<open>The same with a round of the ticker in between, which delivers the row; the last flush has nothing to do.\<close>

lemma piped_ticked:
  assumes "determine (sample_row op u k) = Forward t" "serving n" "length (faults n) < 3"
  obtains svc n' where
    "ingest piped_env (sample_router [''n'']) [Row ''s'' (sample_row op u k), Tick] no_starts (new_service ''ks.t'', n) =
       (no_starts, (svc, n'), Inr ())"
    "flush_service piped_env (svc, n') = ((svc, n'), Inr ())" "serving n'"
proof -
  obtain svc svc' n' where run:
    "ingest piped_env (sample_router [''n'']) [Row ''s'' (sample_row op u k)] no_starts (new_service ''ks.t'', n) =
       (no_starts, (svc, n), Inr ())"
    "flush_service piped_env (svc, n) = ((svc', n'), Inr ())" "serving n'"
    by (rule piped_flushed [OF assms])
  have "buffer svc' = []"
    using run(2) flush_emptied [of "env_codec piped_env" "env_iter piped_env" "env_transport piped_env" svc n]
    by (auto simp: flush_service_def split: prod.splits)
  then show thesis
    using run by (intro that [of "clear_backpressure svc'" n'])
      (auto simp: flush_service_def flush_def clear_backpressure_def split: prod.splits sum.splits)
qed

lemma piped_serving: "serving piped_net \<and> length (faults piped_net) < 3"
  by (simp add: serving_def sample_net_def new_engine_def)

lemma piped_forward: "determine piped_row = Forward OpUpsert"
  by (simp add: determine_def sample_row_def)

lemma piped_writes: "writes_only (rows_of [Row ''s'' piped_row, Tick])"
  by (simp add: writes_only_def determine_def sample_row_def)

lemma piped_not_skipped: "determine piped_row \<noteq> Skip"
  by (simp add: determine_def sample_row_def)

lemma piped_times: "times_in_range (env_formats piped_env) (rows_of [Row ''s'' piped_row, Tick])"
  by (simp add: times_in_range_def piped_env_def sample_formats_def extract_writetime_from_timeuuid_def i64_max_int_def)

lemma piped_target: "target_of (env_formats piped_env) (sample_router [''n'']) (sample_row op u k) = Inr ''n''"
  by (simp add: piped_env_def sample_formats_def target_of_def get_target_node_id_def node_info_of_def hm_get_def)

definition piped_keys :: "string \<Rightarrow> string \<Rightarrow> string + table_key_info" where
  "piped_keys keyspace table =
     Inr (table_key_info_of [(''seq'', 0, ''clustering'', ''int''), (''user'', 0, ''partition_key'', ''text'')])"

lemma piped_start: "start_ingestor piped_keys [''n''] ''ks.t'' = Inr (new_service ''ks.t'', sample_router [''n''])"
  by (simp add: start_ingestor_def parse_table_name_def piped_keys_def sample_router_def Let_def)

end
