(* ===== verification/Search.thy ===== *)
theory Search
  imports Engine
begin

text \<open>
  Search on a node (\<open>Engine::search\<close> and \<open>try_build_json_special_query\<close> in
  \<open>node/src/engine/core.rs\<close>, the \<open>search\<close> handler of \<open>node/src/service/core.rs\<close>): query expansion over
  fields, the rewriting of prefix and fuzzy queries, pagination, grouping by partition and facet
  counts. What a query matches and how documents score is Tantivy's: a \<open>query_engine\<close> gives the
  matching, unexpired documents in descending score, from which \<open>Count\<close>, \<open>TopDocs\<close> and
  \<open>DocSetCollector\<close> take what they need. \<open>TopDocs::with_limit\<close> panics on 0, as Tantivy documents.
\<close>

section \<open>Messages\<close>

record boost_field =
  bf_field :: string
  bf_boost :: f32

record search_hit =
  hit_id :: string
  score :: f32
  hit_payload_json :: string
  hit_partition_key :: string

record facet_bucket =
  bucket_value :: string
  bucket_count :: u64

record facet_result =
  facet_field :: string
  buckets :: "facet_bucket list"

record search_response =
  hits :: "search_hit list"
  total_hits :: u64
  duration_ms :: u64
  facets :: "facet_result list"

record search_request =
  req_query :: string
  req_limit :: u32
  req_offset :: u32
  req_consistency :: i32
  req_default_fields :: "string list"
  req_facet_fields :: "string list"
  req_boost_fields :: "boost_field list"
  req_group_by_partition :: bool

section \<open>The query\<close>

definition clause :: "string list \<Rightarrow> string" where
  "clause per_field = ''('' @ str_join '' OR '' per_field @ '')''"

text \<open>\<open>show_f32\<close> is \<open>f32\<close>'s \<open>Display\<close>.\<close>

definition effective_query ::
  "(f32 \<Rightarrow> string) \<Rightarrow> boost_field list \<Rightarrow> string list \<Rightarrow> string \<Rightarrow> string" where
  "effective_query show_f32 boost_fields default_fields query_str =
     (let no_colon = \<not> contains_char (CHR '':'') query_str;
          no_quote = \<not> contains_char (CHR 0x22) query_str;
          non_blank = (str_trim query_str \<noteq> []);
          tokens = split_whitespace query_str
      in if boost_fields \<noteq> [] \<and> no_colon \<and> no_quote \<and> non_blank then
           str_join '' AND '' (map (\<lambda>token. clause (map (\<lambda>bf.
             ''document.'' @ bf_field bf @ '':'' @ token @ ''^'' @ show_f32 (bf_boost bf)) boost_fields)) tokens)
         else if default_fields \<noteq> [] \<and> no_colon \<and> no_quote \<and> non_blank then
           str_join '' AND '' (map (\<lambda>token. clause (map (\<lambda>field.
             ''document.'' @ field @ '':'' @ token) default_fields)) tokens)
         else query_str)"

text \<open>The queries built by hand: a JSON path with a token prefix, or with a token and an edit
  distance.\<close>

datatype special_query = JsonPrefix string string | JsonFuzzy string string nat

definition try_build_json_special_query :: "string \<Rightarrow> special_query option" where
  "try_build_json_special_query query_str =
     (let trimmed = str_trim query_str in
      if contains_char (CHR '' '') trimmed \<or> contains_char (CHR ''('') trimmed \<or> contains_char (CHR 0x22) trimmed
      then None
      else case split_first (CHR '':'') trimmed of
        None \<Rightarrow> None
      | Some (field_part, value_part) \<Rightarrow>
          (case strip_prefix ''document.'' field_part of
             None \<Rightarrow> None
           | Some json_subpath \<Rightarrow>
               let prefix = (case strip_suffix_char (CHR ''*'') value_part of
                     Some prefix_token \<Rightarrow>
                       if prefix_token \<noteq> [] \<and> \<not> contains_char (CHR ''*'') prefix_token
                       then Some (JsonPrefix json_subpath (to_lowercase prefix_token)) else None
                   | None \<Rightarrow> None);
                   fuzzy = (case split_last (CHR ''~'') value_part of
                     None \<Rightarrow> None
                   | Some (token_part, dist_str) \<Rightarrow>
                       if token_part \<noteq> [] \<and> \<not> contains_char (CHR ''~'') token_part then
                         (case parse_u8 dist_str of
                            Some dist \<Rightarrow>
                              if dist \<le> 2 then Some (JsonFuzzy json_subpath (to_lowercase token_part) dist)
                              else None
                          | None \<Rightarrow> None)
                       else None)
               in (case prefix of Some q \<Rightarrow> Some q | None \<Rightarrow> fuzzy)))"

record ('w, 'a, 'q) query_engine =
  parse_query :: "string \<Rightarrow> string + 'q" \<comment> \<open>\<open>QueryParser\<close> with the document field as its default\<close>
  special :: "special_query \<Rightarrow> 'q"
  ranked :: "'w \<Rightarrow> 'q \<Rightarrow> i64 \<Rightarrow> string + (f32 \<times> 'a) list"
    \<comment> \<open>the matches whose \<open>expires_at\<close> is after a time, best first\<close>
  show_boost :: "f32 \<Rightarrow> string"

definition query_of :: "('w, 'a, 'q) query_engine \<Rightarrow> string \<Rightarrow> string + 'q" where
  "query_of Q effective =
     (case try_build_json_special_query effective of
        Some s \<Rightarrow> Inr (special Q s)
      | None \<Rightarrow> parse_query Q effective)"

section \<open>Hits\<close>

datatype search_error = SearchError string | SearchPanic string

definition doc_field :: "('w, 'a, 'd) tantivy \<Rightarrow> 'd \<Rightarrow> field \<Rightarrow> string" where
  "doc_field T d f = (case doc_str T d f of Some s \<Rightarrow> s | None \<Rightarrow> [])"

definition stored_document :: "json \<Rightarrow> json option" where
  "stored_document full =
     (case json_get ''document'' full of
        Some (JArray (x # xs)) \<Rightarrow> Some x
      | Some other \<Rightarrow> Some other
      | None \<Rightarrow> None)"

definition payload_of :: "serde \<Rightarrow> ('w, 'a, 'd) tantivy \<Rightarrow> 'd \<Rightarrow> string" where
  "payload_of S T d =
     (case Option.bind (from_str S (doc_to_json T d)) stored_document of
        Some v \<Rightarrow> to_string S v
      | None \<Rightarrow> ''{}'')"

definition search_hit_of ::
  "serde \<Rightarrow> ('w, 'a, 'd) tantivy \<Rightarrow> 'w \<Rightarrow> f32 \<times> 'a \<Rightarrow> search_error + search_hit" where
  "search_hit_of S T w sa =
     (case fetch_doc T w (snd sa) of
        Inl e \<Rightarrow> Inl (SearchError e)
      | Inr d \<Rightarrow>
          Inr \<lparr>hit_id = doc_field T d FieldId, score = fst sa, hit_payload_json = payload_of S T d,
               hit_partition_key = doc_field T d FieldPartitionKey\<rparr>)"

fun collect_hits :: "('b \<Rightarrow> 'e + 'c) \<Rightarrow> 'b list \<Rightarrow> 'e + 'c list" where
  "collect_hits f [] = Inr []"
| "collect_hits f (x # xs) =
     (case f x of
        Inl e \<Rightarrow> Inl e
      | Inr y \<Rightarrow> (case collect_hits f xs of Inl e \<Rightarrow> Inl e | Inr ys \<Rightarrow> Inr (y # ys)))"

text \<open>The loop with the \<open>seen\<close> set: the first document of each partition stays.\<close>

fun group_by_first ::
  "('w, 'a, 'd) tantivy \<Rightarrow> 'w \<Rightarrow> string list \<Rightarrow> (f32 \<times> 'a) list \<Rightarrow> search_error + (f32 \<times> 'a) list" where
  "group_by_first T w seen [] = Inr []"
| "group_by_first T w seen (sa # rest) =
     (case fetch_doc T w (snd sa) of
        Inl _ \<Rightarrow> Inl (SearchError ''fetching doc for partition grouping'')
      | Inr d \<Rightarrow>
          let pk = doc_field T d FieldPartitionKey in
          if pk \<in> set seen then group_by_first T w seen rest
          else (case group_by_first T w (pk # seen) rest of
                  Inl e \<Rightarrow> Inl e | Inr grouped \<Rightarrow> Inr (sa # grouped)))"

section \<open>Facets\<close>

type_synonym facet_counts = "(string \<times> (string \<times> u64) list) list"

text \<open>The bucket names a field's value counts under; \<open>Number::to_string\<close> is its JSON text.\<close>

definition facet_values :: "serde \<Rightarrow> json option \<Rightarrow> string list" where
  "facet_values S v =
     (case v of
        Some (JString s) \<Rightarrow> [s]
      | Some (JNumber n) \<Rightarrow> [to_string S (JNumber n)]
      | Some (JBool b) \<Rightarrow> [show_bool b]
      | Some (JArray arr) \<Rightarrow> List.map_filter as_str arr
      | _ \<Rightarrow> [])"

definition count_values :: "string \<Rightarrow> string list \<Rightarrow> facet_counts \<Rightarrow> facet_counts" where
  "count_values field_name values counts =
     hm_put field_name
       (fold (\<lambda>value. hm_bump value 1) values
         (case hm_get counts field_name of Some b \<Rightarrow> b | None \<Rightarrow> [])) counts"

definition count_document :: "serde \<Rightarrow> string list \<Rightarrow> json \<Rightarrow> facet_counts \<Rightarrow> facet_counts" where
  "count_document S facet_fields doc_obj counts =
     fold (\<lambda>field_name. count_values field_name (facet_values S (json_get field_name doc_obj))) facet_fields counts"

fun count_documents ::
  "serde \<Rightarrow> ('w, 'a, 'd) tantivy \<Rightarrow> 'w \<Rightarrow> string list \<Rightarrow> 'a list \<Rightarrow> facet_counts \<Rightarrow> search_error + facet_counts" where
  "count_documents S T w facet_fields [] counts = Inr counts"
| "count_documents S T w facet_fields (a # addrs) counts =
     (case fetch_doc T w a of
        Inl _ \<Rightarrow> Inl (SearchError ''fetching stored doc for facet'')
      | Inr d \<Rightarrow>
          (case Option.bind (from_str S (doc_to_json T d)) stored_document of
             None \<Rightarrow> count_documents S T w facet_fields addrs counts
           | Some doc_obj \<Rightarrow>
               count_documents S T w facet_fields addrs (count_document S facet_fields doc_obj counts)))"

definition count_desc :: "facet_bucket \<Rightarrow> facet_bucket \<Rightarrow> ordering" where
  "count_desc a b = cmp_of (bucket_count b) (bucket_count a)"

definition facet_results :: "facet_counts \<Rightarrow> facet_result list" where
  "facet_results counts =
     map (\<lambda>(field, bs). \<lparr>facet_field = field,
       buckets = sort_by count_desc (map (\<lambda>(value, count). \<lparr>bucket_value = value, bucket_count = count\<rparr>) bs)\<rparr>) counts"

section \<open>\<open>search\<close>\<close>

definition with_limit :: "nat \<Rightarrow> search_error + nat" where
  "with_limit limit = (if limit = 0 then Inl (SearchPanic ''Limit must be strictly greater than 0'') else Inr limit)"

definition collect_page ::
  "serde \<Rightarrow> ('w, 'a, 'd) tantivy \<Rightarrow> 'w \<Rightarrow> bool \<Rightarrow> nat \<Rightarrow> nat \<Rightarrow> (f32 \<times> 'a) list \<Rightarrow> search_error + search_hit list" where
  "collect_page S T w group_by_partition limit offset all =
     (if group_by_partition then
        case with_limit (min (length all) 10000) of
          Inl e \<Rightarrow> Inl e
        | Inr cap \<Rightarrow>
            (case group_by_first T w [] (take cap all) of
               Inl e \<Rightarrow> Inl e
             | Inr grouped \<Rightarrow> collect_hits (search_hit_of S T w) (take limit (drop offset grouped)))
      else
        case with_limit limit of
          Inl e \<Rightarrow> Inl e
        | Inr limit \<Rightarrow> collect_hits (search_hit_of S T w) (take limit (drop offset all)))"

definition search ::
  "serde \<Rightarrow> ('w, 'a, 'd) tantivy \<Rightarrow> ('w, 'a, 'q) query_engine \<Rightarrow> search_request \<Rightarrow> i64 \<Rightarrow> i64 \<Rightarrow> 'w \<Rightarrow>
   search_error + search_response" where
  "search S T Q r start_micros end_micros w =
     (case query_of Q (effective_query (show_boost Q) (req_boost_fields r) (req_default_fields r) (req_query r)) of
        Inl e \<Rightarrow> Inl (SearchError e)
      | Inr query \<Rightarrow>
          (case ranked Q w query start_micros of
             Inl e \<Rightarrow> Inl (SearchError e)
           | Inr all \<Rightarrow>
               (case collect_page S T w (req_group_by_partition r) (unat (req_limit r)) (unat (req_offset r)) all of
                  Inl e \<Rightarrow> Inl e
                | Inr page \<Rightarrow>
                    (case (if req_facet_fields r = [] then Inr []
                           else count_documents S T w (req_facet_fields r) (map snd all) []) of
                       Inl e \<Rightarrow> Inl e
                     | Inr counts \<Rightarrow>
                         Inr \<lparr>hits = page, total_hits = of_nat (length all),
                              duration_ms = end_micros - start_micros, facets = facet_results counts\<rparr>))))"

text \<open>The gRPC handler.\<close>

datatype search_status = LimitIsZero | SearchInternal search_error

definition search_service ::
  "serde \<Rightarrow> ('w, 'a, 'd) tantivy \<Rightarrow> ('w, 'a, 'q) query_engine \<Rightarrow> search_request \<Rightarrow> i64 \<Rightarrow> i64 \<Rightarrow> 'w engine \<Rightarrow>
   search_status + search_response" where
  "search_service S T Q r start_micros end_micros e =
     (if req_limit r = 0 then Inl LimitIsZero
      else case search S T Q r start_micros end_micros (writer e) of
        Inl err \<Rightarrow> Inl (SearchInternal err)
      | Inr response \<Rightarrow> Inr response)"

section \<open>Orders used to sort\<close>

interpretation by_count: keyed_cmp count_desc "\<lambda>b. - uint (bucket_count b)" "\<lambda>b. True"
  by unfold_locales (auto simp: count_desc_def cmp_of_def word_less_def word_uint_eq_iff)

end
