(* ===== verification/Facet_Counts.thy ===== *)
theory Facet_Counts
  imports Search
begin

text \<open>
  Facet counts as one number per field and value: what a list of facet results, or the map a node or
  the gateway counts in, holds for a field and a value; how one counted or merged field changes it.
\<close>

section \<open>The number a field and value count to\<close>

definition facet_count :: "facet_counts \<Rightarrow> string \<Rightarrow> string \<Rightarrow> u64" where
  "facet_count counts f v =
     (case hm_get counts f of None \<Rightarrow> 0 | Some b \<Rightarrow> (case hm_get b v of None \<Rightarrow> 0 | Some n \<Rightarrow> n))"

definition bucket_sum :: "facet_bucket list \<Rightarrow> string \<Rightarrow> u64" where
  "bucket_sum bs v = sum_list (map bucket_count (filter (\<lambda>b. bucket_value b = v) bs))"

definition facet_sum :: "facet_result list \<Rightarrow> string \<Rightarrow> string \<Rightarrow> u64" where
  "facet_sum frs f v = sum_list (map (\<lambda>fr. bucket_sum (buckets fr) v) (filter (\<lambda>fr. facet_field fr = f) frs))"

definition facet_inv :: "facet_counts \<Rightarrow> bool" where
  "facet_inv counts = (hm_inv counts \<and> (\<forall>f b. hm_get counts f = Some b \<longrightarrow> hm_inv b))"

named_theorems facet_simps \<open>how facet counts change\<close>

lemma facet_count_Nil [facet_simps]: "facet_count [] f v = 0"
  by (simp add: facet_count_def)

lemma facet_inv_Nil [facet_simps]: "facet_inv []"
  by (simp add: facet_inv_def)

section \<open>One field counted or merged\<close>

definition add_counts :: "string \<Rightarrow> (string \<times> u64) list \<Rightarrow> facet_counts \<Rightarrow> facet_counts" where
  "add_counts f ps counts =
     hm_put f (fold (\<lambda>(k, n). hm_bump k n) ps (case hm_get counts f of Some b \<Rightarrow> b | None \<Rightarrow> [])) counts"

lemma field_inv: "facet_inv counts \<Longrightarrow> hm_inv (case hm_get counts f of Some b \<Rightarrow> b | None \<Rightarrow> [])"
  by (auto simp: facet_inv_def split: option.splits)

lemma facet_inv_add [facet_simps]: "facet_inv counts \<Longrightarrow> facet_inv (add_counts f ps counts)"
  using hcount.inv_bumps [OF field_inv [of counts f], of ps]
  by (auto simp: facet_inv_def add_counts_def hmap.inv_put hmap.get_put split: if_splits)

lemma facet_count_add [facet_simps]:
  assumes "facet_inv counts"
  shows "facet_count (add_counts g ps counts) f v =
    facet_count counts f v + (if f = g then sum_list (map snd (filter (\<lambda>p. fst p = v) ps)) else 0)"
proof -
  have none: "v \<notin> fst ` set ps \<Longrightarrow> sum_list (map snd (filter (\<lambda>p. fst p = v) ps)) = 0"
    by (subst filter_False) auto
  have "hm_inv counts" using assms by (simp add: facet_inv_def)
  then show ?thesis
    using hcount.get_bumps [OF field_inv [OF assms, of g], of ps v] none
    by (auto simp: facet_count_def add_counts_def hmap.get_put split: option.splits)
qed

text \<open>A loop of such steps adds what each step adds.\<close>

lemma facet_count_fold:
  assumes "facet_inv counts"
    and step: "\<And>x c. x \<in> set xs \<Longrightarrow> facet_inv c \<Longrightarrow> facet_inv (g x c) \<and> facet_count (g x c) f v = facet_count c f v + d x"
  shows "facet_inv (fold g xs counts)"
    and "facet_count (fold g xs counts) f v = facet_count counts f v + sum_list (map d xs)"
proof -
  have "facet_inv (fold g xs counts) \<and> facet_count (fold g xs counts) f v = facet_count counts f v + sum_list (map d xs)"
    using assms
  proof (induction xs arbitrary: counts)
    case (Cons x xs)
    have "facet_inv (g x counts) \<and> facet_count (g x counts) f v = facet_count counts f v + d x"
      using Cons.prems by simp
    then show ?case using Cons.IH [of "g x counts"] Cons.prems(2) by (simp add: ac_simps)
  qed simp
  then show "facet_inv (fold g xs counts)"
    "facet_count (fold g xs counts) f v = facet_count counts f v + sum_list (map d xs)" by blast+
qed

section \<open>A node's count\<close>

lemma count_values_add: "count_values f values = add_counts f (map (\<lambda>v. (v, 1)) values)"
  by (rule ext) (simp add: count_values_def add_counts_def fold_map comp_def)

lemma sum_ones: "sum_list (map snd (filter (\<lambda>p. fst p = v) (map (\<lambda>x. (x, 1)) vs))) = (of_nat (count_list vs v) :: u64)"
  by (induction vs) auto

lemma count_document_step [facet_simps]:
  assumes "facet_inv counts"
  shows "facet_inv (count_document S facet_fields d counts)"
    and "facet_count (count_document S facet_fields d counts) f v = facet_count counts f v +
      of_nat (count_list facet_fields f * count_list (facet_values S (json_get f d)) v)"
proof -
  let ?g = "\<lambda>n. count_values n (facet_values S (json_get n d))"
  let ?d = "\<lambda>n. if f = n then of_nat (count_list (facet_values S (json_get f d)) v) else (0 :: u64)"
  have step: "facet_inv (?g n c) \<and> facet_count (?g n c) f v = facet_count c f v + ?d n" if "facet_inv c" for n c
    using that by (auto simp: count_values_add facet_simps sum_ones)
  have sum: "sum_list (map ?d ns) = of_nat (count_list ns f * count_list (facet_values S (json_get f d)) v)" for ns
    by (induction ns) (auto simp: algebra_simps)
  show "facet_inv (count_document S facet_fields d counts)"
    unfolding count_document_def by (rule facet_count_fold(1) [OF assms step])
  show "facet_count (count_document S facet_fields d counts) f v = facet_count counts f v +
      of_nat (count_list facet_fields f * count_list (facet_values S (json_get f d)) v)"
    unfolding count_document_def sum [symmetric] by (rule facet_count_fold(2) [OF assms step])
qed

text \<open>The document a match stores, when the node can read it back.\<close>

definition match_document :: "serde \<Rightarrow> ('w, 'a, 'd) tantivy \<Rightarrow> 'w \<Rightarrow> 'a \<Rightarrow> json option" where
  "match_document S T w a =
     (case fetch_doc T w a of
        Inl _ \<Rightarrow> None
      | Inr d \<Rightarrow> Option.bind (from_str S (doc_to_json T d)) stored_document)"

definition match_values :: "serde \<Rightarrow> ('w, 'a, 'd) tantivy \<Rightarrow> 'w \<Rightarrow> string \<Rightarrow> 'a \<Rightarrow> string list" where
  "match_values S T w f a =
     (case match_document S T w a of None \<Rightarrow> [] | Some d \<Rightarrow> facet_values S (json_get f d))"

lemma count_documents_exact:
  assumes "count_documents S T w facet_fields addrs counts = Inr c" "facet_inv counts"
  shows "facet_inv c \<and> facet_count c f v = facet_count counts f v +
    of_nat (count_list facet_fields f * count_list (concat (map (match_values S T w f) addrs)) v)"
  using assms
proof (induction addrs arbitrary: counts)
  case (Cons a addrs)
  obtain d where d: "fetch_doc T w a = Inr d" using Cons.prems by (auto split: sum.splits)
  show ?case
  proof (cases "Option.bind (from_str S (doc_to_json T d)) stored_document")
    case None
    then show ?thesis
      using Cons by (simp add: d match_values_def match_document_def)
  next
    case (Some doc)
    have "count_documents S T w facet_fields addrs (count_document S facet_fields doc counts) = Inr c"
      using Cons.prems(1) by (simp add: d Some)
    from Cons.IH [OF this count_document_step(1) [OF Cons.prems(2)]] show ?thesis
      using Cons.prems(2) by (simp add: d Some match_values_def match_document_def facet_simps algebra_simps)
  qed
qed simp

section \<open>From the map to the results\<close>

lemma bucket_sum_sort [facet_simps]: "bucket_sum (sort_by cmp bs) v = bucket_sum bs v"
proof -
  have "mset (map bucket_count (filter (\<lambda>b. bucket_value b = v) (sort_by cmp bs))) =
      mset (map bucket_count (filter (\<lambda>b. bucket_value b = v) bs))"
    by simp
  then show ?thesis unfolding bucket_sum_def by (metis sum_mset_sum_list)
qed

lemma sum_at_key:
  "distinct (map fst m) \<Longrightarrow>
   sum_list (map h (filter (\<lambda>e. fst e = k) m)) = (case map_of m k of None \<Rightarrow> 0 | Some v \<Rightarrow> (h (k, v) :: u64))"
proof (induction m)
  case (Cons e m)
  then have "fst e \<notin> fst ` set m" by simp
  then have "filter (\<lambda>x. fst x = fst e) m = []" by (auto simp: filter_empty_conv image_iff)
  then show ?case using Cons by (cases "fst e = k") (auto simp: prod_eq_iff)
qed simp

lemma bucket_sum_map:
  assumes "hm_inv bs"
  shows "bucket_sum (map (\<lambda>(value, count). \<lparr>bucket_value = value, bucket_count = count\<rparr>) bs) v =
    (case hm_get bs v of None \<Rightarrow> 0 | Some n \<Rightarrow> n)"
  using assms sum_at_key [of bs snd v]
  by (simp add: bucket_sum_def hm_inv_def hm_get_def filter_map comp_def case_prod_unfold split: option.split)

lemma facet_sum_results:
  assumes "facet_inv counts"
  shows "facet_sum (facet_results counts) f v = facet_count counts f v"
proof -
  have "facet_sum (facet_results counts) f v =
      sum_list (map (\<lambda>e. bucket_sum (map (\<lambda>(value, count). \<lparr>bucket_value = value, bucket_count = count\<rparr>) (snd e)) v)
        (filter (\<lambda>e. fst e = f) counts))"
    by (simp add: facet_sum_def facet_results_def filter_map comp_def case_prod_unfold bucket_sum_sort)
  also have "\<dots> = (case map_of counts f of None \<Rightarrow> 0
      | Some b \<Rightarrow> bucket_sum (map (\<lambda>(value, count). \<lparr>bucket_value = value, bucket_count = count\<rparr>) b) v)"
    using assms sum_at_key [of counts _ f] by (simp add: facet_inv_def hm_inv_def split: option.split)
  also have "\<dots> = facet_count counts f v"
    using assms bucket_sum_map by (auto simp: facet_inv_def facet_count_def hm_get_def split: option.splits)
  finally show ?thesis .
qed

text \<open>Every field's buckets come most frequent first.\<close>

lemma facet_results_sorted:
  "fr \<in> set (facet_results counts) \<Longrightarrow> sorted (map (\<lambda>b. - uint (bucket_count b)) (buckets fr))"
  by (auto simp: facet_results_def list_all_iff intro!: by_count.sorted_by_key)

end
