(* ===== verification/Gateway.thy ===== *)
theory Gateway
  imports Search Batch_Service "HOL-Library.Sublist"
begin

text \<open>
  The gateway (\<open>gateway/src/querier/core.rs\<close>, \<open>server/handlers.rs\<close> and the client list of \<open>main.rs\<close>): a
  search is sent to every node, the hits are merged by score and paged, the facet counts are summed,
  and the consistency level decides how many nodes must have answered. A client is what its node
  answers to a request; a failed call carries the texts of its status code and message.
\<close>

section \<open>Requests\<close>

datatype consistency = ConsistencyUnspecified | ConsistencyAny | ConsistencyAll

definition consistency_of :: "search_request \<Rightarrow> consistency" where
  "consistency_of r =
     (if req_consistency r = 1 then ConsistencyAny
      else if req_consistency r = 2 then ConsistencyAll
      else ConsistencyUnspecified)"

type_synonym call_failure = "string \<times> string"
type_synonym client = "search_request \<Rightarrow> call_failure + search_response"

text \<open>\<open>main\<close>: one client per sorted address.\<close>

definition client_addresses :: "string list \<Rightarrow> string list" where
  "client_addresses search_nodes = map node_address (sort search_nodes)"

definition node_request :: "search_request \<Rightarrow> search_request" where
  "node_request req = req\<lparr>req_limit := req_limit req + req_offset req, req_offset := 0\<rparr>"

section \<open>Merging the answers\<close>

record scatter_fail =
  fail_message :: string
  fail_errors :: "string list"

definition scatter_fail_text :: "scatter_fail \<Rightarrow> string" where
  "scatter_fail_text f =
     (if fail_errors f = [] then fail_message f
      else fail_message f @ '': '' @ str_join ''; '' (fail_errors f))"

record gathered =
  all_hits :: "search_hit list"
  sum_hits :: u64
  max_duration :: u64
  failed_calls :: "string list"
  successful_nodes :: nat
  facets_agg :: facet_counts

definition nothing_gathered :: gathered where
  "nothing_gathered =
     \<lparr>all_hits = [], sum_hits = 0, max_duration = 0, failed_calls = [], successful_nodes = 0, facets_agg = []\<rparr>"

definition merge_facet :: "facet_result \<Rightarrow> facet_counts \<Rightarrow> facet_counts" where
  "merge_facet fr agg =
     hm_put (facet_field fr)
       (fold (\<lambda>b. hm_bump (bucket_value b) (bucket_count b)) (buckets fr)
         (case hm_get agg (facet_field fr) of Some m \<Rightarrow> m | None \<Rightarrow> [])) agg"

definition gather_one :: "nat \<times> (call_failure + search_response) \<Rightarrow> gathered \<Rightarrow> gathered" where
  "gather_one ir g =
     (case snd ir of
        Inr inner \<Rightarrow>
          g\<lparr>all_hits := all_hits g @ hits inner,
            sum_hits := sum_hits g + total_hits inner,
            max_duration := max (max_duration g) (duration_ms inner),
            successful_nodes := successful_nodes g + 1,
            facets_agg := fold merge_facet (facets inner) (facets_agg g)\<rparr>
      | Inl (code, msg) \<Rightarrow>
          g\<lparr>failed_calls := failed_calls g @
            [''Node '' @ show_nat (fst ir) @ '' search failed: '' @ code @ '' ('' @ msg @ '')'']\<rparr>)"

definition gather :: "(call_failure + search_response) list \<Rightarrow> gathered" where
  "gather results = fold gather_one (enumerate 0 results) nothing_gathered"

definition score_desc :: "search_hit \<Rightarrow> search_hit \<Rightarrow> ordering" where
  "score_desc a b = (case f32_partial_cmp (score b) (score a) of Some c \<Rightarrow> c | None \<Rightarrow> Equal)"

definition page_hits :: "nat \<Rightarrow> nat \<Rightarrow> search_hit list \<Rightarrow> search_hit list" where
  "page_hits offset limit sorted_hits =
     (if length sorted_hits \<le> offset then [] else take limit (drop offset sorted_hits))"

definition check_consistency :: "consistency \<Rightarrow> nat \<Rightarrow> gathered \<Rightarrow> scatter_fail option" where
  "check_consistency c total_nodes g =
     (case c of
        ConsistencyAll \<Rightarrow>
          if successful_nodes g < total_nodes then
            Some \<lparr>fail_message = ''Consistency ALL failed: '' @ show_nat (successful_nodes g) @ ''/'' @
                show_nat total_nodes @ '' nodes succeeded'', fail_errors = failed_calls g\<rparr>
          else None
      | _ \<Rightarrow>
          if successful_nodes g = 0 then
            Some \<lparr>fail_message = ''Consistency ANY failed: all '' @ show_nat total_nodes @ '' nodes failed.'',
                fail_errors = failed_calls g\<rparr>
          else None)"

definition scatter_gather :: "client list \<Rightarrow> search_request \<Rightarrow> scatter_fail + search_response" where
  "scatter_gather clients req =
     (let g = gather (map (\<lambda>client. client (node_request req)) clients)
      in case check_consistency (consistency_of req) (length clients) g of
           Some fail \<Rightarrow> Inl fail
         | None \<Rightarrow>
             Inr \<lparr>hits = page_hits (unat (req_offset req)) (unat (req_limit req)) (sort_by score_desc (all_hits g)),
                  total_hits = sum_hits g, duration_ms = max_duration g,
                  facets = facet_results (facets_agg g)\<rparr>)"

text \<open>The HTTP handler: 200 with the response, 500 with the failure.\<close>

definition search_handler :: "client list \<Rightarrow> search_request \<Rightarrow> nat \<times> (scatter_fail + search_response)" where
  "search_handler clients payload =
     (case scatter_gather clients payload of
        Inr response \<Rightarrow> (200, Inr response)
      | Inl e \<Rightarrow> (500, Inl e))"

section \<open>Orders used to sort\<close>

definition not_nan :: "search_hit \<Rightarrow> bool" where
  "not_nan h = (\<not> f32_is_nan (score h))"

interpretation by_score: keyed_cmp score_desc "\<lambda>h. - f32_key (score h)" not_nan
  by unfold_locales (auto simp: score_desc_def not_nan_def f32_partial_cmp_key cmp_of_def)

section \<open>The contract of a node\<close>

text \<open>What the gateway relies on: asked for \<open>limit\<close> hits from offset 0, a node answers with its best
  \<open>limit\<close> hits, in order of score, of a fixed list of all its hits for that query. \<open>node_hits\<close> is
  that list.\<close>

locale search_node =
  fixes client :: client
    and node_hits :: "search_request \<Rightarrow> search_hit list"
    and answers :: "search_request \<Rightarrow> bool"
  assumes best_hits: "answers r \<Longrightarrow> req_offset r = 0 \<Longrightarrow> req_limit r \<noteq> 0 \<Longrightarrow>
      \<exists>resp. client r = Inr resp \<and> hits resp = take (unat (req_limit r)) (node_hits r)"
    and node_hits_page: "node_hits (r\<lparr>req_limit := l, req_offset := k\<rparr>) = node_hits r"
    and hits_sorted: "answers r \<Longrightarrow> sorted (map (\<lambda>h. - f32_key (score h)) (node_hits r))"
    and hits_not_nan: "answers r \<Longrightarrow> list_all not_nan (node_hits r)"
begin

lemma answer_hits:
  assumes "answers (node_request req)" "req_limit req + req_offset req \<noteq> 0"
  shows "\<exists>resp. client (node_request req) = Inr resp \<and>
    hits resp = take (unat (req_limit req + req_offset req)) (node_hits req)"
proof -
  have "node_hits (node_request req) = node_hits req"
    unfolding node_request_def by (rule node_hits_page)
  moreover have "req_offset (node_request req) = 0" "req_limit (node_request req) = req_limit req + req_offset req"
    by (simp_all add: node_request_def)
  ultimately show ?thesis using best_hits [OF assms(1)] assms(2) by simp
qed

end

section \<open>A node's engine as a client\<close>

fun search_status_texts :: "search_status \<Rightarrow> call_failure" where
  "search_status_texts LimitIsZero =
     (''Client specified an invalid argument'', ''Limit must be strictly greater than 0'')"
| "search_status_texts (SearchInternal (SearchError e)) = (''Internal error'', e)"
| "search_status_texts (SearchInternal (SearchPanic e)) = (''Unknown error'', e)"

definition node_client ::
  "serde \<Rightarrow> ('w, 'a, 'd) tantivy \<Rightarrow> ('w, 'a, 'q) query_engine \<Rightarrow> i64 \<Rightarrow> i64 \<Rightarrow> 'w engine \<Rightarrow> client" where
  "node_client S T Q now finish e r =
     (case search_service S T Q r now finish e of
        Inr response \<Rightarrow> Inr response
      | Inl st \<Rightarrow> Inl (search_status_texts st))"

text \<open>All matches of a request on a node, best first.\<close>

definition matches ::
  "('w, 'a, 'q) query_engine \<Rightarrow> search_request \<Rightarrow> i64 \<Rightarrow> 'w \<Rightarrow> string + (f32 \<times> 'a) list" where
  "matches Q r now w =
     (case query_of Q (effective_query (show_boost Q) (req_boost_fields r) (req_default_fields r) (req_query r)) of
        Inl e \<Rightarrow> Inl e
      | Inr query \<Rightarrow> ranked Q w query now)"

definition full_hits ::
  "serde \<Rightarrow> ('w, 'a, 'd) tantivy \<Rightarrow> ('w, 'a, 'q) query_engine \<Rightarrow> i64 \<Rightarrow> 'w engine \<Rightarrow> search_request \<Rightarrow> search_hit list" where
  "full_hits S T Q now e r =
     (case matches Q r now (writer e) of
        Inl _ \<Rightarrow> []
      | Inr all \<Rightarrow>
          (case (if req_group_by_partition r then group_by_first T (writer e) [] (take 10000 all) else Inr all) of
             Inl _ \<Rightarrow> []
           | Inr all' \<Rightarrow>
               (case collect_hits (search_hit_of S T (writer e)) all' of Inl _ \<Rightarrow> [] | Inr hs \<Rightarrow> hs)))"

text \<open>The node can answer: the query parses, Tantivy ranks its matches by score with no NaN, every
  matching document can be fetched, and a grouped search has a match.\<close>

definition node_answers ::
  "('w, 'a, 'd) tantivy \<Rightarrow> ('w, 'a, 'q) query_engine \<Rightarrow> i64 \<Rightarrow> 'w engine \<Rightarrow> search_request \<Rightarrow> bool" where
  "node_answers T Q now e r =
     (\<exists>all. matches Q r now (writer e) = Inr all \<and>
        sorted (map (\<lambda>sa. - f32_key (fst sa)) all) \<and>
        list_all (\<lambda>sa. \<not> f32_is_nan (fst sa) \<and> (\<exists>d. fetch_doc T (writer e) (snd sa) = Inr d)) all \<and>
        (req_group_by_partition r \<longrightarrow> all \<noteq> []))"

lemma collect_hits_Inr:
  "list_all (\<lambda>x. \<exists>y. f x = Inr y) xs \<Longrightarrow> collect_hits f xs = Inr (map (\<lambda>x. projr (f x)) xs)"
  by (induction xs) auto

lemma search_hit_ok:
  "fetch_doc T w (snd sa) = Inr d \<Longrightarrow> \<exists>h. search_hit_of S T w sa = Inr h \<and> score h = fst sa"
  by (simp add: search_hit_of_def)

definition fetchable :: "('w, 'a, 'd) tantivy \<Rightarrow> 'w \<Rightarrow> (f32 \<times> 'a) list \<Rightarrow> bool" where
  "fetchable T w all = list_all (\<lambda>sa. \<exists>d. fetch_doc T w (snd sa) = Inr d) all"

lemma collect_fetchable:
  assumes "fetchable T w all"
  shows "collect_hits (search_hit_of S T w) all = Inr (map (\<lambda>sa. projr (search_hit_of S T w sa)) all)"
    and "map score (map (\<lambda>sa. projr (search_hit_of S T w sa)) all) = map fst all"
  using assms
  by (auto simp: fetchable_def list_all_iff intro!: collect_hits_Inr dest!: search_hit_ok)
    (auto simp: search_hit_of_def split: sum.splits)

lemma fetchable_take_drop: "fetchable T w all \<Longrightarrow> fetchable T w (take n (drop k all))"
  by (auto simp: fetchable_def list_all_iff dest!: in_set_takeD in_set_dropD)

text \<open>Grouping keeps a subsequence: the first document of each partition not seen before.\<close>

definition doc_pk :: "('w, 'a, 'd) tantivy \<Rightarrow> 'w \<Rightarrow> f32 \<times> 'a \<Rightarrow> string" where
  "doc_pk T w sa = (case fetch_doc T w (snd sa) of Inl _ \<Rightarrow> [] | Inr d \<Rightarrow> doc_field T d FieldPartitionKey)"

lemma group_by_first_spec:
  assumes "fetchable T w all"
  shows "\<exists>g. group_by_first T w seen all = Inr g \<and> subseq g all \<and>
    distinct (map (doc_pk T w) g) \<and> set (map (doc_pk T w) g) = doc_pk T w ` set all - set seen \<and>
    (\<forall>sa \<in> set g. \<exists>us vs. all = us @ sa # vs \<and> doc_pk T w sa \<notin> doc_pk T w ` set us)"
  using assms
proof (induction all arbitrary: seen)
  case (Cons sa all)
  obtain d where d: "fetch_doc T w (snd sa) = Inr d" and rest: "fetchable T w all"
    using Cons.prems by (auto simp: fetchable_def)
  let ?pk = "doc_field T d FieldPartitionKey"
  have pk: "doc_pk T w sa = ?pk" by (simp add: doc_pk_def d)
  show ?case
  proof (cases "?pk \<in> set seen")
    case True
    obtain g where g: "group_by_first T w seen all = Inr g" "subseq g all" "distinct (map (doc_pk T w) g)"
      "set (map (doc_pk T w) g) = doc_pk T w ` set all - set seen"
      "\<forall>sa \<in> set g. \<exists>us vs. all = us @ sa # vs \<and> doc_pk T w sa \<notin> doc_pk T w ` set us"
      using Cons.IH [OF rest, of seen] by blast
    have "\<exists>us vs. sa # all = us @ x # vs \<and> doc_pk T w x \<notin> doc_pk T w ` set us" if x: "x \<in> set g" for x
    proof -
      obtain us vs where "all = us @ x # vs" "doc_pk T w x \<notin> doc_pk T w ` set us" using g(5) x by blast
      moreover have "doc_pk T w x \<in> set (map (doc_pk T w) g)" using x by simp
      then have "doc_pk T w x \<noteq> ?pk" unfolding g(4) using True by (metis DiffD2)
      ultimately show ?thesis by (intro exI [of _ "sa # us"] exI [of _ vs]) (simp add: pk)
    qed
    then show ?thesis using g True d pk by (auto simp: Let_def)
  next
    case False
    obtain g where g: "group_by_first T w (?pk # seen) all = Inr g" "subseq g all" "distinct (map (doc_pk T w) g)"
      "set (map (doc_pk T w) g) = doc_pk T w ` set all - set (?pk # seen)"
      "\<forall>sa \<in> set g. \<exists>us vs. all = us @ sa # vs \<and> doc_pk T w sa \<notin> doc_pk T w ` set us"
      using Cons.IH [OF rest, of "?pk # seen"] by blast
    have "\<exists>us vs. sa # all = us @ x # vs \<and> doc_pk T w x \<notin> doc_pk T w ` set us" if x: "x \<in> set (sa # g)" for x
    proof (cases "x = sa")
      case False
      then have xg: "x \<in> set g" using x by simp
      then obtain us vs where "all = us @ x # vs" "doc_pk T w x \<notin> doc_pk T w ` set us" using g(5) by blast
      moreover have "doc_pk T w x \<in> set (map (doc_pk T w) g)" using xg by simp
      then have "doc_pk T w x \<noteq> ?pk" unfolding g(4) by simp
      ultimately show ?thesis by (intro exI [of _ "sa # us"] exI [of _ vs]) (simp add: pk)
    qed (intro exI [of _ "[]"] exI [of _ all], simp)
    then show ?thesis
      using g False d pk by (intro exI [of _ "sa # g"]) (auto simp: Let_def)
  qed
qed simp

lemma scores_of_hits:
  assumes "map score hs = map fst all"
  shows "map (\<lambda>h. - f32_key (score h)) hs = map (\<lambda>sa. - f32_key (fst sa)) all"
proof -
  have "map (\<lambda>s. - f32_key s) (map score hs) = map (\<lambda>s. - f32_key s) (map fst all)"
    by (simp only: assms)
  then show ?thesis by (simp add: comp_def)
qed

lemma subseq_in_set: "subseq xs ys \<Longrightarrow> x \<in> set xs \<Longrightarrow> x \<in> set ys"
  by (induction rule: list_emb.induct) auto

lemma subseq_sorted: "subseq xs ys \<Longrightarrow> sorted (map f ys) \<Longrightarrow> sorted (map (f :: 'a \<Rightarrow> 'k::linorder) xs)"
proof (induction rule: list_emb.induct)
  case (list_emb_Cons2 x y xs ys)
  then show ?case using subseq_in_set [OF list_emb_Cons2(2)] by auto
qed auto

lemma subseq_fetchable: "subseq xs ys \<Longrightarrow> fetchable T w ys \<Longrightarrow> fetchable T w xs"
  unfolding fetchable_def list_all_iff using subseq_in_set by metis

lemma collect_take:
  assumes "fetchable T w all" "collect_hits (search_hit_of S T w) all = Inr hs"
  shows "collect_hits (search_hit_of S T w) (take n (drop k all)) = Inr (take n (drop k hs))"
  using collect_fetchable(1) [OF assms(1), of S] assms(2)
    collect_fetchable(1) [OF fetchable_take_drop [OF assms(1)], of S n k]
  by (simp add: take_map drop_map)

lemma count_documents_ok:
  "fetchable T w all \<Longrightarrow> \<exists>c. count_documents S T w fs (map snd all) counts = Inr c"
  by (induction all arbitrary: counts) (auto simp: fetchable_def split: option.splits)

text \<open>What a node that can answer returns, page by page.\<close>

lemma node_client_answer:
  assumes ans: "node_answers T Q now e r" and lim: "req_limit r \<noteq> 0"
  shows "\<exists>resp. node_client S T Q now finish e r = Inr resp \<and>
    hits resp = take (unat (req_limit r)) (drop (unat (req_offset r)) (full_hits S T Q now e r))"
proof -
  obtain all where all: "matches Q r now (writer e) = Inr all" "fetchable T (writer e) all"
    "req_group_by_partition r \<Longrightarrow> all \<noteq> []"
    using ans unfolding node_answers_def fetchable_def list_all_iff by blast
  obtain c where c: "(if req_facet_fields r = [] then Inr [] else
      count_documents S T (writer e) (req_facet_fields r) (map snd all) []) = Inr c"
    using count_documents_ok [OF all(2), of S "req_facet_fields r" "[]"] by (cases "req_facet_fields r = []") auto
  have lim': "unat (req_limit r) \<noteq> 0" using lim by (simp add: unat_eq_0)
  obtain base where base: "(if req_group_by_partition r then group_by_first T (writer e) [] (take 10000 all) else Inr all) = Inr base"
    "fetchable T (writer e) base"
  proof (cases "req_group_by_partition r")
    case True
    have f: "fetchable T (writer e) (take 10000 all)"
      using fetchable_take_drop [OF all(2), of 10000 0] by simp
    obtain g where "group_by_first T (writer e) [] (take 10000 all) = Inr g" "subseq g (take 10000 all)"
      using group_by_first_spec [OF f, of "[]"] by blast
    with True show ?thesis using that subseq_fetchable [OF _ f] by auto
  qed (use that all in auto)
  let ?hs = "map (\<lambda>sa. projr (search_hit_of S T (writer e) sa)) base"
  have hs: "collect_hits (search_hit_of S T (writer e)) base = Inr ?hs"
    by (rule collect_fetchable(1) [OF base(2)])
  have full: "full_hits S T Q now e r = ?hs"
    by (simp add: full_hits_def all(1) base(1) hs)
  have page: "collect_page S T (writer e) (req_group_by_partition r) (unat (req_limit r)) (unat (req_offset r)) all
      = Inr (take (unat (req_limit r)) (drop (unat (req_offset r)) ?hs))"
  proof (cases "req_group_by_partition r")
    case True
    have "take (min (length all) 10000) all = take 10000 all" by (simp add: min_def)
    then show ?thesis
      using True all(3) base(1) collect_take [OF base(2) hs]
      by (simp add: collect_page_def with_limit_def)
  next
    case False
    then show ?thesis
      using base(1) collect_take [OF base(2) hs] lim' by (simp add: collect_page_def with_limit_def)
  qed
  show ?thesis
    using all(1) page c lim
    by (auto simp: node_client_def search_service_def search_def matches_def full split: sum.splits)
qed

lemma full_hits_ok:
  assumes "node_answers T Q now e r"
  shows "sorted (map (\<lambda>h. - f32_key (score h)) (full_hits S T Q now e r))"
    "list_all not_nan (full_hits S T Q now e r)"
proof -
  obtain all where all: "matches Q r now (writer e) = Inr all" "fetchable T (writer e) all"
    "sorted (map (\<lambda>sa. - f32_key (fst sa)) all)" "list_all (\<lambda>sa. \<not> f32_is_nan (fst sa)) all"
    using assms unfolding node_answers_def fetchable_def list_all_iff by blast
  obtain base where base: "(if req_group_by_partition r then group_by_first T (writer e) [] (take 10000 all) else Inr all) = Inr base"
    "subseq base all"
  proof (cases "req_group_by_partition r")
    case True
    have f: "fetchable T (writer e) (take 10000 all)"
      using fetchable_take_drop [OF all(2), of 10000 0] by simp
    obtain g where "group_by_first T (writer e) [] (take 10000 all) = Inr g" "subseq g (take 10000 all)"
      using group_by_first_spec [OF f, of "[]"] by blast
    moreover have "subseq (take 10000 all) all" by (rule prefix_imp_subseq [OF take_is_prefix])
    ultimately show ?thesis using that True subseq_order.order_trans [of g "take 10000 all" all] by auto
  qed (use that in auto)
  have fb: "fetchable T (writer e) base" by (rule subseq_fetchable [OF base(2) all(2)])
  let ?hs = "map (\<lambda>sa. projr (search_hit_of S T (writer e) sa)) base"
  have full: "full_hits S T Q now e r = ?hs"
    using collect_fetchable(1) [OF fb, of S] by (simp add: full_hits_def all(1) base(1))
  note scores = collect_fetchable(2) [OF fb, of S]
  show "sorted (map (\<lambda>h. - f32_key (score h)) (full_hits S T Q now e r))"
    unfolding full scores_of_hits [OF scores] by (rule subseq_sorted [OF base(2) all(3)])
  have "list_all (\<lambda>x. \<not> f32_is_nan x) (map fst base)"
    using all(4) subseq_in_set [OF base(2)] by (fastforce simp: list_all_iff)
  then have "list_all (\<lambda>x. \<not> f32_is_nan x) (map score ?hs)" by (simp only: scores)
  then show "list_all not_nan (full_hits S T Q now e r)"
    unfolding full by (simp only: list.pred_map comp_def not_nan_def [abs_def])
qed

interpretation engine_client: search_node "node_client S T Q now finish e" "full_hits S T Q now e" "node_answers T Q now e"
  for S :: serde and T :: "('w, 'a, 'd) tantivy" and Q :: "('w, 'a, 'q) query_engine" and now finish e
proof (unfold_locales, goal_cases)
  case (1 r)
  then show ?case using node_client_answer [of T Q now e r S finish] by simp
next
  case (2 k l r)
  have "matches Q (r\<lparr>req_limit := l, req_offset := k\<rparr>) = matches Q r"
    by (intro ext) (simp add: matches_def)
  moreover have "req_group_by_partition (r\<lparr>req_limit := l, req_offset := k\<rparr>) = req_group_by_partition r"
    by simp
  ultimately show ?case unfolding full_hits_def by (simp only:)
qed (fact full_hits_ok)+


end
