(* ===== verification/Reference_Search.thy ===== *)
theory Reference_Search
  imports Gateway Reference_Index
begin

text \<open>
  A small query engine over the reference index, on which witnesses run: a query is one word, a
  document matches if its \<open>text\<close> member holds the word, and scores by how often (as the bit pattern of
  a small positive \<open>f32\<close>).
\<close>

definition ref_text :: "json \<Rightarrow> string list" where
  "ref_text d =
     (case Option.bind (json_get ''document'' d) (json_get ''text'') of
        Some (JString s) \<Rightarrow> split_whitespace s
      | _ \<Rightarrow> [])"

definition ref_ranked :: "ref_index \<Rightarrow> string \<Rightarrow> i64 \<Rightarrow> (f32 \<times> json) list" where
  "ref_ranked w q now =
     sort_key (\<lambda>sd. - f32_key (fst sd))
       (map (\<lambda>d. (of_nat (count_list (ref_text d) q), d))
         (filter (\<lambda>d. q \<in> set (ref_text d) \<and> (case ref_expires d of None \<Rightarrow> False | Some x \<Rightarrow> sint now < sint x))
           (r_visible w)))"

definition ref_query :: "(ref_index, json, string) query_engine" where
  "ref_query =
     \<lparr>parse_query = (\<lambda>s. if str_trim s = [] then Inl ''Syntax Error'' else Inr s),
      special = (\<lambda>sq. case sq of JsonPrefix _ token \<Rightarrow> token | JsonFuzzy _ token _ \<Rightarrow> token),
      ranked = (\<lambda>w q now. Inr (ref_ranked w q now)),
      show_boost = (\<lambda>b. show_nat (unat b))\<rparr>"

definition text_doc :: "string \<Rightarrow> string \<Rightarrow> string \<Rightarrow> json" where
  "text_doc i pk text = full_doc_wrapper i pk i64_max (JObject [(''text'', JString text)]) 1"

definition engine_showing :: "json list \<Rightarrow> ref_index engine" where
  "engine_showing ds = new_engine (ref_empty\<lparr>r_visible := ds\<rparr>)"

named_theorems search_eval \<open>rules that evaluate a search on the reference instances\<close>

lemma text_doc_fields [search_eval]:
  "ref_text (text_doc i pk text) = split_whitespace text"
  "ref_expires (text_doc i pk text) = Some i64_max"
  "doc_str ref_tantivy (text_doc i pk text) FieldId = Some i"
  "doc_str ref_tantivy (text_doc i pk text) FieldPartitionKey = Some pk"
  by (simp_all add: text_doc_def ref_eval) (simp add: ref_text_def full_doc_wrapper_def wrapper_get bt_get_Cons)

lemma fetch_ref [search_eval]: "fetch_doc ref_tantivy w d = Inr d"
  by (simp add: ref_eval)

lemma text_doc_json [search_eval]:
  "Option.bind (from_str ref_serde (doc_to_json ref_tantivy (text_doc i pk text))) stored_document =
     Some (JObject [(''text'', JString text)])"
proof -
  have "json_wf (JObject [(''text'', JString text)])" by (simp add: bt_inv_Cons)
  from ref_to_json_back [OF this] show ?thesis
    by (simp add: text_doc_def ref_tantivy_ops stored_document_def bt_get_Cons)
qed

lemma ranked_showing [search_eval]:
  "ranked ref_query (writer (engine_showing ds)) q now = Inr (ref_ranked (ref_empty\<lparr>r_visible := ds\<rparr>) q now)"
  by (simp add: ref_query_def engine_showing_def new_engine_def)

lemma show_parse [search_eval]:
  "str_trim s \<noteq> [] \<Longrightarrow> parse_query ref_query s = Inr s"
  by (simp add: ref_query_def)

lemma hit_of_text_doc [search_eval]:
  "search_hit_of ref_serde ref_tantivy w (s, text_doc i pk text) =
     Inr \<lparr>hit_id = i, score = s, hit_payload_json = to_string ref_serde (JObject [(''text'', JString text)]),
          hit_partition_key = pk\<rparr>"
  by (simp add: search_hit_of_def fetch_ref doc_field_def text_doc_fields payload_of_def text_doc_json)

lemmas query_eval [search_eval] = query_of_def effective_query_def try_build_json_special_query_def Let_def
  contains_char_def str_trim_def is_whitespace_def

text \<open>Two nodes: the word \<open>db\<close> three times in \<open>a\<close>, once in \<open>c\<close>, twice in \<open>b\<close>.\<close>

definition node_one :: "ref_index engine" where
  "node_one = engine_showing [text_doc ''c'' ''p'' ''a db'', text_doc ''a'' ''p'' ''db db db'']"

definition node_two :: "ref_index engine" where
  "node_two = engine_showing [text_doc ''b'' ''q'' ''db or db'']"

definition sample_request :: search_request where
  "sample_request =
     \<lparr>req_query = ''db'', req_limit = 2, req_offset = 1, req_consistency = 1, req_default_fields = [],
      req_facet_fields = [''text''], req_boost_fields = [], req_group_by_partition = False\<rparr>"

lemma db_query: "query_of ref_query (effective_query f [] [] ''db'') = Inr ''db''"
proof -
  have "effective_query f [] [] ''db'' = ''db''" by (simp add: effective_query_def Let_def)
  moreover have "try_build_json_special_query ''db'' = None" "str_trim ''db'' \<noteq> []"
    by (simp_all add: query_eval)
  ultimately show ?thesis by (simp add: query_of_def show_parse)
qed

lemma sample_matches:
  assumes "req_query r = ''db''" "req_default_fields r = []" "req_boost_fields r = []"
  shows "matches ref_query r 5 (writer node_one) =
      Inr [(3, text_doc ''a'' ''p'' ''db db db''), (1, text_doc ''c'' ''p'' ''a db'')]"
    and "matches ref_query r 5 (writer node_two) = Inr [(2, text_doc ''b'' ''q'' ''db or db'')]"
  by (simp_all add: matches_def assms db_query node_one_def node_two_def ranked_showing ref_ranked_def text_doc_fields
      split_whitespace_def is_whitespace_def f32_key_def f32_magnitude_def i64_max_int_def)

definition text_hit :: "string \<Rightarrow> f32 \<Rightarrow> string \<Rightarrow> string \<Rightarrow> search_hit" where
  "text_hit i s text pk =
     \<lparr>hit_id = i, score = s, hit_payload_json = to_string ref_serde (JObject [(''text'', JString text)]),
      hit_partition_key = pk\<rparr>"

lemma sample_full_hits:
  assumes "req_query r = ''db''" "req_default_fields r = []" "req_boost_fields r = []" "\<not> req_group_by_partition r"
  shows "full_hits ref_serde ref_tantivy ref_query 5 node_one r =
      [text_hit ''a'' 3 ''db db db'' ''p'', text_hit ''c'' 1 ''a db'' ''p'']"
    and "full_hits ref_serde ref_tantivy ref_query 5 node_two r = [text_hit ''b'' 2 ''db or db'' ''q'']"
  by (simp_all add: full_hits_def sample_matches [OF assms(1-3)] assms(4) hit_of_text_doc text_hit_def)

lemma sample_answers:
  assumes "req_query r = ''db''" "req_default_fields r = []" "req_boost_fields r = []"
  shows "node_answers ref_tantivy ref_query 5 node_one r"
    and "node_answers ref_tantivy ref_query 5 node_two r"
  by (simp_all add: node_answers_def sample_matches [OF assms] fetch_ref f32_is_nan_def f32_key_def f32_magnitude_def)

end
