(* ===== verification/Gateway_Props.thy ===== *)
theory Gateway_Props
  imports Facet_Counts Reference_Search
begin

text \<open>
  What the gateway promises: the page it returns is the page of the global ranking, its totals and
  facet counts are the sums over the nodes that answered, and the consistency level decides on
  success. The node side is the engine's \<open>search\<close>, through the contract \<open>search_node\<close>.
\<close>

section \<open>What \<open>gather\<close> collects\<close>

definition answers_of :: "(call_failure + search_response) list \<Rightarrow> search_response list" where
  "answers_of results = List.map_filter (\<lambda>r. case r of Inr a \<Rightarrow> Some a | Inl _ \<Rightarrow> None) results"

definition failure_text :: "nat \<times> (call_failure + search_response) \<Rightarrow> string option" where
  "failure_text ir =
     (case snd ir of
        Inl (code, msg) \<Rightarrow> Some (''Node '' @ show_nat (fst ir) @ '' search failed: '' @ code @ '' ('' @ msg @ '')'')
      | Inr _ \<Rightarrow> None)"

lemma answers_of_simps [simp]:
  "answers_of [] = []" "answers_of (Inr a # rs) = a # answers_of rs" "answers_of (Inl f # rs) = answers_of rs"
  by (simp_all add: answers_of_def)

lemma length_answers: "length (answers_of rs) \<le> length rs"
proof (induction rs)
  case (Cons r rs)
  then show ?case by (cases r) auto
qed simp

lemma all_answered: "length (answers_of rs) = length rs \<longleftrightarrow> list_all (\<lambda>r. \<exists>a. r = Inr a) rs"
proof (induction rs)
  case (Cons r rs)
  then show ?case using length_answers [of rs] by (cases r) auto
qed simp

lemma none_answered: "answers_of rs = [] \<longleftrightarrow> \<not> list_ex (\<lambda>r. \<exists>a. r = Inr a) rs"
proof (induction rs)
  case (Cons r rs)
  then show ?case by (cases r) auto
qed simp

lemma gather_fold:
  "all_hits (fold gather_one (enumerate n rs) g) = all_hits g @ concat (map hits (answers_of rs)) \<and>
   sum_hits (fold gather_one (enumerate n rs) g) = sum_hits g + sum_list (map total_hits (answers_of rs)) \<and>
   successful_nodes (fold gather_one (enumerate n rs) g) = successful_nodes g + length (answers_of rs) \<and>
   failed_calls (fold gather_one (enumerate n rs) g) =
     failed_calls g @ List.map_filter failure_text (enumerate n rs) \<and>
   facets_agg (fold gather_one (enumerate n rs) g) =
     fold (\<lambda>a. fold merge_facet (facets a)) (answers_of rs) (facets_agg g)"
proof (induction rs arbitrary: n g)
  case (Cons r rs)
  show ?case
  proof (cases r)
    case (Inl f)
    then show ?thesis
      using Cons.IH [of "Suc n" "gather_one (n, r) g"]
      by (cases f) (simp add: gather_one_def failure_text_def List.map_filter_simps)
  next
    case (Inr a)
    then show ?thesis
      using Cons.IH [of "Suc n" "gather_one (n, r) g"]
      by (simp add: gather_one_def failure_text_def List.map_filter_simps add.assoc)
  qed
qed (simp add: List.map_filter_simps)

lemma gather_results:
  "all_hits (gather rs) = concat (map hits (answers_of rs))"
  "sum_hits (gather rs) = sum_list (map total_hits (answers_of rs))"
  "successful_nodes (gather rs) = length (answers_of rs)"
  "failed_calls (gather rs) = List.map_filter failure_text (enumerate 0 rs)"
  "facets_agg (gather rs) = fold (\<lambda>a. fold merge_facet (facets a)) (answers_of rs) []"
  using gather_fold [of 0 rs nothing_gathered] by (simp_all add: gather_def nothing_gathered_def)

section \<open>Facet counts\<close>

lemma merge_facet_add:
  "merge_facet fr = add_counts (facet_field fr) (map (\<lambda>b. (bucket_value b, bucket_count b)) (buckets fr))"
  by (rule ext) (simp add: merge_facet_def add_counts_def fold_map comp_def)

lemma merge_facets:
  assumes "facet_inv counts"
  shows "facet_inv (fold merge_facet frs counts)"
    and "facet_count (fold merge_facet frs counts) f v = facet_count counts f v + facet_sum frs f v"
proof -
  let ?d = "\<lambda>fr. if f = facet_field fr then bucket_sum (buckets fr) v else 0"
  have step: "facet_inv (merge_facet fr c) \<and> facet_count (merge_facet fr c) f v = facet_count c f v + ?d fr"
    if "facet_inv c" for fr c
    using that by (simp add: merge_facet_add facet_simps bucket_sum_def filter_map comp_def)
  have sum: "sum_list (map ?d frs) = facet_sum frs f v"
    unfolding facet_sum_def by (induction frs) auto
  show "facet_inv (fold merge_facet frs counts)"
    by (rule facet_count_fold(1) [OF assms step])
  show "facet_count (fold merge_facet frs counts) f v = facet_count counts f v + facet_sum frs f v"
    unfolding sum [symmetric] by (rule facet_count_fold(2) [OF assms step])
qed

lemma gathered_facets:
  "facet_inv (facets_agg (gather rs))"
  "facet_count (facets_agg (gather rs)) f v = sum_list (map (\<lambda>a. facet_sum (facets a) f v) (answers_of rs))"
proof -
  have step: "facet_inv (fold merge_facet (facets a) c) \<and>
      facet_count (fold merge_facet (facets a) c) f v = facet_count c f v + facet_sum (facets a) f v"
    if "facet_inv c" for a :: search_response and c
    using merge_facets [OF that] by blast
  note all = facet_count_fold [where g = "\<lambda>a. fold merge_facet (facets a)", OF facet_inv_Nil step]
  show "facet_inv (facets_agg (gather rs))"
    unfolding gather_results by (rule all(1))
  show "facet_count (facets_agg (gather rs)) f v = sum_list (map (\<lambda>a. facet_sum (facets a) f v) (answers_of rs))"
    unfolding gather_results using all(2) by (simp add: facet_count_Nil)
qed

section \<open>Success\<close>

lemma scatter_gather_Inr:
  "scatter_gather clients req = Inr resp \<longleftrightarrow>
   (let g = gather (map (\<lambda>client. client (node_request req)) clients) in
    check_consistency (consistency_of req) (length clients) g = None \<and>
    resp = \<lparr>hits = page_hits (unat (req_offset req)) (unat (req_limit req)) (sort_by score_desc (all_hits g)),
      total_hits = sum_hits g, duration_ms = max_duration g, facets = facet_results (facets_agg g)\<rparr>)"
  by (auto simp: scatter_gather_def Let_def split: option.splits)

lemma check_consistency_gather:
  "check_consistency c (length rs) (gather rs) = None \<longleftrightarrow>
   (if c = ConsistencyAll then list_all (\<lambda>r. \<exists>a. r = Inr a) rs else list_ex (\<lambda>r. \<exists>a. r = Inr a) rs)"
  using all_answered [of rs] none_answered [of rs] length_answers [of rs]
  by (cases c) (auto simp: check_consistency_def gather_results)


section \<open>The page\<close>

type_synonym 'w node = "i64 \<times> i64 \<times> 'w engine"

text \<open>A client whose node is down answers with a failure; one whose node is up (at its clock's times
  when the search starts and ends) runs the engine's search.\<close>

definition client_of ::
  "serde \<Rightarrow> ('w, 'a, 'd) tantivy \<Rightarrow> ('w, 'a, 'q) query_engine \<Rightarrow> call_failure + 'w node \<Rightarrow> client" where
  "client_of S T Q n =
     (case n of
        Inl f \<Rightarrow> (\<lambda>_. Inl f)
      | Inr (now, finish, e) \<Rightarrow> node_client S T Q now finish e)"

definition up_nodes :: "(call_failure + 'w node) list \<Rightarrow> 'w node list" where
  "up_nodes nodes = List.map_filter (\<lambda>n. case n of Inr x \<Rightarrow> Some x | Inl _ \<Rightarrow> None) nodes"

definition nodes_answer ::
  "('w, 'a, 'd) tantivy \<Rightarrow> ('w, 'a, 'q) query_engine \<Rightarrow> search_request \<Rightarrow> (call_failure + 'w node) list \<Rightarrow> bool" where
  "nodes_answer T Q req nodes = list_all (\<lambda>(now, finish, e). node_answers T Q now e req) (up_nodes nodes)"

definition all_node_hits ::
  "serde \<Rightarrow> ('w, 'a, 'd) tantivy \<Rightarrow> ('w, 'a, 'q) query_engine \<Rightarrow> search_request \<Rightarrow> (call_failure + 'w node) list \<Rightarrow>
   search_hit list list" where
  "all_node_hits S T Q req nodes = map (\<lambda>(now, finish, e). full_hits S T Q now e req) (up_nodes nodes)"

lemma up_nodes_simps [simp]:
  "up_nodes [] = []" "up_nodes (Inr x # ns) = x # up_nodes ns" "up_nodes (Inl f # ns) = up_nodes ns"
  by (simp_all add: up_nodes_def List.map_filter_simps)

lemma node_answers_request: "node_answers T Q now e (node_request req) = node_answers T Q now e req"
proof -
  have "matches Q (node_request req) = matches Q req"
    by (intro ext) (simp add: matches_def node_request_def)
  then show ?thesis by (simp add: node_answers_def node_request_def)
qed

lemma answers_of_nodes:
  assumes "nodes_answer T Q req nodes" "req_limit req + req_offset req \<noteq> 0"
  shows "map hits (answers_of (map (\<lambda>n. client_of S T Q n (node_request req)) nodes)) =
      map (take (unat (req_limit req + req_offset req))) (all_node_hits S T Q req nodes)"
    and "list_all (\<lambda>r. \<exists>a. r = Inr a) (map (\<lambda>n. client_of S T Q n (node_request req)) nodes) \<longleftrightarrow>
      list_all (\<lambda>n. \<exists>x. n = Inr x) nodes"
    and "list_ex (\<lambda>r. \<exists>a. r = Inr a) (map (\<lambda>n. client_of S T Q n (node_request req)) nodes) \<longleftrightarrow> up_nodes nodes \<noteq> []"
proof -
  have *: "\<exists>a. node_client S T Q now finish e (node_request req) = Inr a \<and>
      hits a = take (unat (req_limit req + req_offset req)) (full_hits S T Q now e req)"
    if "node_answers T Q now e req" for now finish e
    using engine_client.answer_hits [of T Q now e req S finish] that assms(2) by (simp add: node_answers_request)
  have "map hits (answers_of (map (\<lambda>n. client_of S T Q n (node_request req)) nodes)) =
      map (take (unat (req_limit req + req_offset req))) (all_node_hits S T Q req nodes) \<and>
    (list_all (\<lambda>r. \<exists>a. r = Inr a) (map (\<lambda>n. client_of S T Q n (node_request req)) nodes) \<longleftrightarrow>
      list_all (\<lambda>n. \<exists>x. n = Inr x) nodes) \<and>
    (list_ex (\<lambda>r. \<exists>a. r = Inr a) (map (\<lambda>n. client_of S T Q n (node_request req)) nodes) \<longleftrightarrow> up_nodes nodes \<noteq> [])"
    using assms(1)
  proof (induction nodes)
    case (Cons n nodes)
    show ?case
    proof (cases n)
      case (Inl f)
      then show ?thesis using Cons by (simp add: nodes_answer_def all_node_hits_def client_of_def)
    next
      case (Inr x)
      obtain now finish e where x: "x = (now, finish, e)" by (cases x)
      have "node_answers T Q now e req" using Cons.prems by (simp add: nodes_answer_def Inr x)
      from * [OF this, of finish] obtain a where
        "node_client S T Q now finish e (node_request req) = Inr a"
        "hits a = take (unat (req_limit req + req_offset req)) (full_hits S T Q now e req)"
        by blast
      then show ?thesis using Cons by (simp add: nodes_answer_def all_node_hits_def client_of_def Inr x)
    qed
  qed (simp add: all_node_hits_def)
  then show "map hits (answers_of (map (\<lambda>n. client_of S T Q n (node_request req)) nodes)) =
      map (take (unat (req_limit req + req_offset req))) (all_node_hits S T Q req nodes)"
    "list_all (\<lambda>r. \<exists>a. r = Inr a) (map (\<lambda>n. client_of S T Q n (node_request req)) nodes) \<longleftrightarrow>
      list_all (\<lambda>n. \<exists>x. n = Inr x) nodes"
    "list_ex (\<lambda>r. \<exists>a. r = Inr a) (map (\<lambda>n. client_of S T Q n (node_request req)) nodes) \<longleftrightarrow> up_nodes nodes \<noteq> []"
    by blast+
qed

lemma all_node_hits_ok:
  assumes "nodes_answer T Q req nodes" "hs \<in> set (all_node_hits S T Q req nodes)"
  shows "sorted (map (\<lambda>h. - f32_key (score h)) hs)" "list_all not_nan hs"
  using assms engine_client.hits_sorted [of T Q _ _ req S] engine_client.hits_not_nan [of T Q _ _ req S]
  by (auto simp: all_node_hits_def nodes_answer_def list_all_iff)

lemma page_of_merge:
  assumes "\<forall>hs \<in> set hss. sorted (map (\<lambda>h. - f32_key (score h)) hs)" "\<forall>hs \<in> set hss. list_all not_nan hs"
  shows "page_hits k l (sort_by score_desc (concat (map (take (l + k)) hss))) =
    take l (drop k (sort_key (\<lambda>h. - f32_key (score h)) (concat hss)))"
proof -
  let ?f = "\<lambda>h. - f32_key (score h)"
  have page: "page_hits k l hs = drop k (take (l + k) hs)" for hs
    by (simp add: page_hits_def drop_take)
  have "list_all not_nan (concat (map (take (l + k)) hss))"
    using assms(2) by (auto simp: list_all_iff dest!: in_set_takeD)
  then have "sort_by score_desc (concat (map (take (l + k)) hss)) = sort_key ?f (concat (map (take (l + k)) hss))"
    by (rule by_score.sort_by_sort_key)
  then show ?thesis
    using take_sort_key_merge [OF assms(1), of "l + k" "[]"]
    by (simp add: page drop_take)
qed

text \<open>C3: A page is the page of the global ranking. If the nodes that are up can answer the query, and
  either all are up or the consistency level is not \<open>ALL\<close>, the gateway returns hits \<open>offset\<close> up to
  \<open>offset + limit\<close> of all the hits of all those nodes ordered by score (ties in node order), as if
  they were ranked on one node: asking every node for \<open>limit + offset\<close> hits loses nothing, as long as
  that sum fits 32 bits.\<close>

theorem gateway_page_is_global_page:
  fixes nodes :: "(call_failure + 'w node) list"
  assumes "nodes_answer T Q req nodes" "up_nodes nodes \<noteq> []"
    and "req_consistency req = 2 \<Longrightarrow> list_all (\<lambda>n. \<exists>x. n = Inr x) nodes"
    and "req_limit req \<noteq> 0" "unat (req_limit req) + unat (req_offset req) < 2 ^ 32"
  shows "\<exists>resp. scatter_gather (map (client_of S T Q) nodes) req = Inr resp \<and>
    hits resp = take (unat (req_limit req)) (drop (unat (req_offset req))
      (sort_key (\<lambda>h. - f32_key (score h)) (concat (all_node_hits S T Q req nodes))))"
proof -
  have sum: "unat (req_limit req + req_offset req) = unat (req_limit req) + unat (req_offset req)"
    using assms(5) by (simp add: unat_word_ariths)
  have "unat (req_limit req) \<noteq> 0" using assms(4) by (simp add: unat_eq_0)
  with sum have nz: "req_limit req + req_offset req \<noteq> 0" by (metis add_is_0 unat_0)
  let ?rs = "map (\<lambda>n. client_of S T Q n (node_request req)) nodes"
  have rs: "map (\<lambda>client. client (node_request req)) (map (client_of S T Q) nodes) = ?rs" by simp
  note ans = answers_of_nodes [OF assms(1) nz, of S]
  have "check_consistency (consistency_of req) (length ?rs) (gather ?rs) = None"
    unfolding check_consistency_gather ans(2,3) using assms(2,3) by (simp add: consistency_of_def)
  then show ?thesis
    using page_of_merge [of "all_node_hits S T Q req nodes" "unat (req_offset req)" "unat (req_limit req)"]
      all_node_hits_ok [OF assms(1), of _ S]
    by (simp add: scatter_gather_Inr rs Let_def gather_results(1) ans(1) sum comp_def)
qed

lemma answers_of_mem: "Inr a \<in> set rs \<Longrightarrow> a \<in> set (answers_of rs)"
  by (induction rs) (auto simp: answers_of_def List.map_filter_simps split: sum.splits)

text \<open>Under consistency \<open>ALL\<close> a page with room for all hits of all answers holds them.\<close>

lemma all_nodes_answer:
  assumes "client \<in> set clients" "req_consistency req = 2" "scatter_gather clients req = Inr resp"
  shows "\<exists>a. client (node_request req) = Inr a"
proof -
  let ?rs = "map (\<lambda>client. client (node_request req)) clients"
  have "check_consistency (consistency_of req) (length ?rs) (gather ?rs) = None"
    using assms(3) unfolding scatter_gather_Inr by (simp add: Let_def gather_results(1))
  then have "list_all (\<lambda>r. \<exists>a. r = Inr a) ?rs"
    using assms(2) unfolding check_consistency_gather by (simp add: consistency_of_def)
  then show ?thesis using assms(1) by (auto simp: list_all_iff)
qed

text \<open>Whatever the request, every hit of a page is one of a client's answer.\<close>

lemma page_from_answers:
  assumes "scatter_gather clients req = Inr resp" "h \<in> set (hits resp)"
  shows "\<exists>client \<in> set clients. \<exists>a. client (node_request req) = Inr a \<and> h \<in> set (hits a)"
proof -
  let ?rs = "map (\<lambda>client. client (node_request req)) clients"
  have "hits resp = page_hits (unat (req_offset req)) (unat (req_limit req)) (sort_by score_desc (concat (map hits (answers_of ?rs))))"
    using assms(1) unfolding scatter_gather_Inr by (simp add: Let_def gather_results(1))
  then have "h \<in> set (concat (map hits (answers_of ?rs)))"
    using assms(2) by (auto simp: page_hits_def split: if_splits dest!: in_set_takeD in_set_dropD)
  then obtain a where "a \<in> set (answers_of ?rs)" "h \<in> set (hits a)" by auto
  then show ?thesis by (auto simp: answers_of_def List.map_filter_def split: sum.splits) blast
qed

lemma page_holds_answers:
  assumes "scatter_gather clients req = Inr resp" "req_consistency req = 2" "req_offset req = 0" "client \<in> set clients"
    and "length (concat (map hits (answers_of (map (\<lambda>client. client (node_request req)) clients)))) \<le> unat (req_limit req)"
  shows "\<exists>a. client (node_request req) = Inr a \<and> set (hits a) \<subseteq> set (hits resp)"
proof -
  let ?rs = "map (\<lambda>client. client (node_request req)) clients"
  have page: "hits resp = page_hits 0 (unat (req_limit req)) (sort_by score_desc (concat (map hits (answers_of ?rs))))"
    using assms(1,3) unfolding scatter_gather_Inr by (simp add: Let_def gather_results(1))
  obtain a where a: "client (node_request req) = Inr a"
    using all_nodes_answer [OF assms(4,2,1)] by blast
  with assms(4) have "Inr a \<in> set ?rs" by (metis image_eqI set_map)
  then have "a \<in> set (answers_of ?rs)" by (rule answers_of_mem)
  moreover have "set (hits resp) = set (concat (map hits (answers_of ?rs)))"
    using assms(5) by (simp add: page page_hits_def)
  ultimately show ?thesis using a by (intro exI [of _ a]) auto
qed

definition sample_cluster :: "(call_failure + ref_index node) list" where
  "sample_cluster = [Inr (5, 7, node_one), Inl (''unavailable'', ''down''), Inr (5, 7, node_two)]"

theorem gateway_page_is_global_page_witness:
  "\<exists>resp. scatter_gather (map (client_of ref_serde ref_tantivy ref_query) sample_cluster) sample_request = Inr resp \<and>
     map hit_id (hits resp) = [''b'', ''c'']"
proof -
  have up: "up_nodes sample_cluster = [(5, 7, node_one), (5, 7, node_two)]"
    by (simp add: sample_cluster_def)
  have "nodes_answer ref_tantivy ref_query sample_request sample_cluster"
    by (simp only: nodes_answer_def up) (simp add: sample_answers sample_request_def)
  moreover have "all_node_hits ref_serde ref_tantivy ref_query sample_request sample_cluster =
      [[text_hit ''a'' 3 ''db db db'' ''p'', text_hit ''c'' 1 ''a db'' ''p''], [text_hit ''b'' 2 ''db or db'' ''q'']]"
    by (simp only: all_node_hits_def up) (simp add: sample_full_hits sample_request_def)
  ultimately show ?thesis
    using gateway_page_is_global_page [of ref_tantivy ref_query sample_request sample_cluster ref_serde]
    by (auto simp: up sample_request_def text_hit_def f32_key_def f32_magnitude_def)
qed

text \<open>C27: The counts are those of all nodes that answered: a facet's count for a field and a value is the
  sum of what these nodes count for it, \<open>total_hits\<close> is the sum of theirs (both modulo \<open>2 ^ 64\<close>), and
  the values of each field come most frequent first.\<close>

theorem facet_counts_are_summed:
  assumes "scatter_gather clients req = Inr resp"
  shows "facet_sum (facets resp) f v =
      sum_list (map (\<lambda>a. facet_sum (facets a) f v) (answers_of (map (\<lambda>client. client (node_request req)) clients))) \<and>
    total_hits resp = sum_list (map total_hits (answers_of (map (\<lambda>client. client (node_request req)) clients))) \<and>
    list_all (\<lambda>fr. sorted (map (\<lambda>b. - uint (bucket_count b)) (buckets fr))) (facets resp)"
  using assms
  by (auto simp: scatter_gather_Inr Let_def facet_sum_results [OF gathered_facets(1)] gathered_facets(2)
      gather_results(2) list_all_iff facet_results_sorted)

theorem facet_counts_are_summed_witness:
  "facet_sum (facets (projr (scatter_gather
     (replicate 2 (\<lambda>r. Inr \<lparr>hits = [], total_hits = 3, duration_ms = 1, facets = [\<lparr>facet_field = ''f'',
        buckets = [\<lparr>bucket_value = ''v'', bucket_count = 2\<rparr>]\<rparr>]\<rparr>)) sample_request))) ''f'' ''v'' = 4"
proof -
  let ?c = "\<lambda>r :: search_request. Inr \<lparr>hits = [], total_hits = 3, duration_ms = 1,
      facets = [\<lparr>facet_field = ''f'', buckets = [\<lparr>bucket_value = ''v'', bucket_count = 2\<rparr>]\<rparr>]\<rparr> :: call_failure + search_response"
  obtain resp where r: "scatter_gather (replicate 2 ?c) sample_request = Inr resp"
    by (simp add: scatter_gather_Inr Let_def check_consistency_def sample_request_def consistency_of_def
        gather_results numeral_2_eq_2)
  show ?thesis
    using facet_counts_are_summed [OF r, of "''f''" "''v''"]
    unfolding r sum.sel by (simp add: facet_sum_def bucket_sum_def numeral_2_eq_2)
qed

text \<open>A page too far out is refused. When \<open>limit + offset\<close> is \<open>2 ^ 32\<close>, the 32-bit sum the gateway
  sends to the nodes is 0, which every node rejects: the search fails at every consistency level
  (with at least one node), although the request itself is one a node accepts.\<close>

theorem wrapped_limit_fails:
  assumes "unat (req_limit req) + unat (req_offset req) = 2 ^ 32" "nodes \<noteq> []"
  shows "\<exists>f. scatter_gather (map (client_of S T Q) nodes) req = Inl f"
proof -
  have "req_limit req + req_offset req = 0"
    using assms(1) by (simp add: unat_eq_0 [symmetric] unat_word_ariths)
  then have down: "client_of S T Q n (node_request req) = Inl (case n of Inl f \<Rightarrow> f | Inr _ \<Rightarrow> search_status_texts LimitIsZero)" for n
    by (auto simp: client_of_def node_client_def search_service_def node_request_def split: sum.splits)
  let ?rs = "map (\<lambda>client. client (node_request req)) (map (client_of S T Q) nodes)"
  have "\<not> list_all (\<lambda>r. \<exists>a. r = Inr a) ?rs" "\<not> list_ex (\<lambda>r. \<exists>a. r = Inr a) ?rs"
    using assms(2) by (auto simp: down list_all_iff list_ex_iff neq_Nil_conv)
  then have "check_consistency (consistency_of req) (length ?rs) (gather ?rs) \<noteq> None"
    unfolding check_consistency_gather by simp
  then show ?thesis by (auto simp: scatter_gather_def Let_def)
qed

theorem wrapped_limit_fails_witness:
  "\<exists>f. scatter_gather (map (client_of ref_serde ref_tantivy ref_query) sample_cluster)
     (sample_request\<lparr>req_limit := 10, req_offset := 4294967286\<rparr>) = Inl f"
  by (rule wrapped_limit_fails) (simp_all add: sample_cluster_def)

end
