(* ===== verification/Search_Props.thy ===== *)
theory Search_Props
  imports Gateway_Props Engine_Props
begin

text \<open>
  What a node's search promises: which queries are rewritten and which are not, facet counts over all
  matches whatever the page, and one hit, the best, per partition in a grouped search.
\<close>

section \<open>Which queries are rewritten by hand\<close>

lemma split_last_Some:
  assumes "split_last c s = Some (a, b)"
  shows "s = a @ c # b \<and> c \<notin> set b"
proof -
  obtain x y where xy: "split_first c (rev s) = Some (x, y)" "a = rev y" "b = rev x"
    using assms by (auto simp: split_last_def)
  from split_first_Some [OF xy(1)] show ?thesis
    by (metis xy(2,3) append_assoc append_Cons append_Nil rev.simps(2) rev_append rev_rev_ident set_rev)
qed

lemma split_last_append: "c \<notin> set b \<Longrightarrow> split_last c (a @ c # b) = Some (a, b)"
  using split_first_append [of c "rev b" "rev a"] by (simp add: split_last_def)

lemma parse_digits_set: "parse_digits acc s = Some n \<Longrightarrow> c \<in> set s \<Longrightarrow> digit_val c \<noteq> None"
  by (induction s arbitrary: acc) (auto split: option.splits)

lemma parse_u8_chars: "parse_u8 s = Some n \<Longrightarrow> c \<in> set s \<Longrightarrow> c = CHR ''+'' \<or> digit_val c \<noteq> None"
  by (auto simp: parse_u8_def parse_nat_def split: list.splits option.splits if_splits
      dest: parse_digits_set)

lemma parse_u8_nonempty: "parse_u8 s = Some n \<Longrightarrow> s \<noteq> []"
  by (auto simp: parse_u8_def)

definition plain_clause :: "string \<Rightarrow> bool" where
  "plain_clause s = (CHR '' '' \<notin> set s \<and> CHR ''('' \<notin> set s \<and> CHR 0x22 \<notin> set s)"

text \<open>What becomes of the value after the colon.\<close>

definition special_of_value :: "string \<Rightarrow> string \<Rightarrow> special_query option" where
  "special_of_value path val =
     (let prefix = (case strip_suffix_char (CHR ''*'') val of
           Some token \<Rightarrow> if token \<noteq> [] \<and> \<not> contains_char (CHR ''*'') token
             then Some (JsonPrefix path (to_lowercase token)) else None
         | None \<Rightarrow> None);
         fuzzy = (case split_last (CHR ''~'') val of
           None \<Rightarrow> None
         | Some (token, dist_str) \<Rightarrow> if token \<noteq> [] \<and> \<not> contains_char (CHR ''~'') token then
               (case parse_u8 dist_str of
                  Some dist \<Rightarrow> if dist \<le> 2 then Some (JsonFuzzy path (to_lowercase token) dist) else None
                | None \<Rightarrow> None)
             else None)
      in (case prefix of Some q \<Rightarrow> Some q | None \<Rightarrow> fuzzy))"

lemma special_by_parts:
  "try_build_json_special_query q =
     (if plain_clause (str_trim q) then
        Option.bind (split_first (CHR '':'') (str_trim q))
          (\<lambda>(a, val). Option.bind (strip_prefix ''document.'' a) (\<lambda>path. special_of_value path val))
      else None)"
proof -
  have plain: "contains_char (CHR '' '') t \<or> contains_char (CHR ''('') t \<or> contains_char (CHR 0x22) t \<longleftrightarrow>
      \<not> plain_clause t" for t
    by (simp add: plain_clause_def contains_char_def)
  show ?thesis
  proof (cases "split_first (CHR '':'') (str_trim q)")
    case None
    then show ?thesis
      by (simp only: try_build_json_special_query_def Let_def plain option.case Option.bind.simps if_not_P if_cancel)
  next
    case (Some av)
    obtain a val where av: "av = (a, val)" by (cases av)
    show ?thesis
      unfolding try_build_json_special_query_def Let_def plain special_of_value_def Some av
      by (cases "strip_prefix ''document.'' a") simp_all
  qed
qed

lemma special_clause:
  "try_build_json_special_query q = Some sq \<longleftrightarrow>
   plain_clause (str_trim q) \<and> (\<exists>path val. str_trim q = ''document.'' @ path @ '':'' @ val \<and>
      CHR '':'' \<notin> set path \<and> special_of_value path val = Some sq)"
  (is "?L \<longleftrightarrow> plain_clause ?q \<and> ?R")
proof -
  define doc where "doc = ''document.''"
  have doc: "CHR '':'' \<notin> set doc" by (simp add: doc_def)
  have "?L \<longleftrightarrow> plain_clause ?q \<and> (\<exists>a val path. split_first (CHR '':'') ?q = Some (a, val) \<and>
      strip_prefix doc a = Some path \<and> special_of_value path val = Some sq)"
    unfolding special_by_parts doc_def [symmetric] by (auto simp: bind_eq_Some_conv)
  moreover have "split_first (CHR '':'') ?q = Some (a, val) \<and> strip_prefix doc a = Some path \<longleftrightarrow>
      ?q = doc @ path @ '':'' @ val \<and> a = doc @ path \<and> CHR '':'' \<notin> set path" for a val path
    using split_first_Some [of "CHR '':''" ?q a val] split_first_append [of "CHR '':''" "doc @ path" val] doc
    by (auto simp: strip_prefix_Some)
  ultimately show ?thesis unfolding doc_def [symmetric] by metis
qed

lemma value_prefix:
  "special_of_value path val = Some (JsonPrefix p t) \<longleftrightarrow>
   (\<exists>token. val = token @ ''*'' \<and> p = path \<and> token \<noteq> [] \<and> CHR ''*'' \<notin> set token \<and> t = to_lowercase token)"
proof (cases "strip_suffix_char (CHR ''*'') val")
  case None
  then have "val \<noteq> token @ ''*''" for token by (metis option.distinct(1) strip_suffix_char_Some)
  with None show ?thesis
    by (simp add: special_of_value_def split: option.splits prod.splits)
next
  case (Some token)
  then have "val = token @ ''*''" by (simp add: strip_suffix_char_Some)
  with Some show ?thesis
    by (auto simp: special_of_value_def contains_char_def split: option.splits prod.splits)
qed

lemma value_fuzzy:
  "special_of_value path val = Some (JsonFuzzy p t n) \<longleftrightarrow>
   (\<exists>token dist. val = token @ ''~'' @ dist \<and> p = path \<and> token \<noteq> [] \<and> CHR ''~'' \<notin> set token \<and>
      parse_u8 dist = Some n \<and> n \<le> 2 \<and> t = to_lowercase token)"
  (is "?L \<longleftrightarrow> ?R")
proof
  assume ?L
  then show ?R
    by (auto simp: special_of_value_def Let_def contains_char_def dest!: split_last_Some
        split: option.splits if_splits prod.splits)
next
  assume ?R
  then obtain token dist where v: "val = token @ ''~'' @ dist" "p = path" "token \<noteq> []" "CHR ''~'' \<notin> set token"
    "parse_u8 dist = Some n" "n \<le> 2" "t = to_lowercase token"
    by blast
  have no: "CHR ''~'' \<notin> set dist" "CHR ''*'' \<notin> set dist"
    using parse_u8_chars [OF v(5), of "CHR ''~''"] parse_u8_chars [OF v(5), of "CHR ''*''"]
    by (auto simp: digit_val_def)
  then have "split_last (CHR ''~'') val = Some (token, dist)"
    using split_last_append [of "CHR ''~''" dist token] v(1) by simp
  moreover have "strip_suffix_char (CHR ''*'') val = None"
    using no(2) parse_u8_nonempty [OF v(5)] v(1) last_in_set [OF parse_u8_nonempty [OF v(5)]]
    unfolding strip_suffix_char_def by (metis append_is_Nil_conv last_ConsR last_appendR list.distinct(1) append_Cons)
  ultimately show ?L using v by (simp add: special_of_value_def contains_char_def)
qed

text \<open>C29: Exactly these queries are rewritten by hand: one clause without spaces, parentheses or quotes,
  over a path of the document, whose value is a non-empty token (holding no further star) and a final star (a prefix query for
  the lower-cased token), or a non-empty token, a tilde and a number up to 2 (a fuzzy query at that distance). All others
  go to the query parser.\<close>

theorem special_queries_exact:
  "try_build_json_special_query q = Some sq \<longleftrightarrow>
   plain_clause (str_trim q) \<and>
   (\<exists>path token. CHR '':'' \<notin> set path \<and> token \<noteq> [] \<and>
     (str_trim q = ''document.'' @ path @ '':'' @ token @ ''*'' \<and> CHR ''*'' \<notin> set token \<and>
        sq = JsonPrefix path (to_lowercase token) \<or>
      (\<exists>dist n. str_trim q = ''document.'' @ path @ '':'' @ token @ ''~'' @ dist \<and> CHR ''~'' \<notin> set token \<and>
        parse_u8 dist = Some n \<and> n \<le> 2 \<and> sq = JsonFuzzy path (to_lowercase token) n)))"
proof (cases sq)
  case (JsonPrefix p t)
  show ?thesis unfolding JsonPrefix special_clause value_prefix by blast
next
  case (JsonFuzzy p t n)
  show ?thesis unfolding JsonFuzzy special_clause value_fuzzy by blast
qed

section \<open>Query expansion\<close>

lemma words_from_Nil: "words_from cur s = [] \<longleftrightarrow> cur = [] \<and> list_all is_whitespace s"
  by (induction s arbitrary: cur) auto

lemma trim_Nil: "str_trim s = [] \<longleftrightarrow> list_all is_whitespace s"
proof -
  have "str_trim s = [] \<longleftrightarrow> dropWhile is_whitespace s = []"
  proof
    assume "str_trim s = []"
    then have "\<forall>c \<in> set (dropWhile is_whitespace s). is_whitespace c" by (simp add: str_trim_def)
    then show "dropWhile is_whitespace s = []" by (metis hd_dropWhile hd_in_set)
  qed (auto simp: str_trim_def dest: set_dropWhileD)
  then show ?thesis by (simp only: dropWhile_eq_Nil_conv list_all_iff)
qed

lemma trim_keeps_clause:
  assumes "s = ''('' @ r"
  shows "CHR ''('' \<in> set (str_trim s)"
proof -
  have "\<not> is_whitespace (CHR ''('')" by (simp add: is_whitespace_def)
  then have d: "dropWhile is_whitespace s = s" using assms by simp
  have "dropWhile is_whitespace (rev r @ ''('') = dropWhile is_whitespace (rev r) @ ''(''"
    using \<open>\<not> is_whitespace (CHR ''('')\<close>
    by (induction "rev r" arbitrary: r) (auto simp: dropWhile_append split: if_splits)
  then show ?thesis using assms unfolding str_trim_def d by simp
qed

lemma join_clauses: "cs \<noteq> [] \<Longrightarrow> \<exists>r. str_join sep (map clause cs) = ''('' @ r"
proof -
  assume "cs \<noteq> []"
  then obtain x xs where "cs = x # xs" by (cases cs) auto
  then show ?thesis by (cases xs) (simp_all add: clause_def)
qed

text \<open>Query expansion bypasses the rewriting. A query of bare words, with boost fields or default fields,
  becomes a conjunction of one clause per word; no such expanded query is rewritten, so the prefix and
  fuzzy forms work only in a query that names its field itself.\<close>

theorem expanded_query_is_not_rewritten:
  assumes "boosts \<noteq> [] \<or> defaults \<noteq> []"
    and "\<not> contains_char (CHR '':'') q" "\<not> contains_char (CHR 0x22) q" "str_trim q \<noteq> []"
  shows "(\<exists>clauses. effective_query show_f32 boosts defaults q = str_join '' AND '' (map clause clauses) \<and>
      length clauses = length (split_whitespace q) \<and> clauses \<noteq> []) \<and>
    try_build_json_special_query (effective_query show_f32 boosts defaults q) = None"
proof -
  have ne: "split_whitespace q \<noteq> []"
    using assms(4) by (simp add: split_whitespace_def words_from_Nil trim_Nil)
  have "\<exists>f. effective_query show_f32 boosts defaults q = str_join '' AND '' (map clause (map f (split_whitespace q)))"
  proof (cases "boosts = []")
    case True
    then show ?thesis
      using assms
      by (intro exI [of _ "\<lambda>token. map (\<lambda>field. ''document.'' @ field @ '':'' @ token) defaults"])
        (simp add: effective_query_def Let_def comp_def)
  next
    case False
    then show ?thesis
      using assms
      by (intro exI [of _ "\<lambda>token. map (\<lambda>bf. ''document.'' @ bf_field bf @ '':'' @ token @ ''^'' @
            show_f32 (bf_boost bf)) boosts"])
        (simp add: effective_query_def Let_def comp_def)
  qed
  then obtain f where f: "effective_query show_f32 boosts defaults q =
      str_join '' AND '' (map clause (map f (split_whitespace q)))" by blast
  then have clauses: "\<exists>clauses. effective_query show_f32 boosts defaults q = str_join '' AND '' (map clause clauses) \<and>
      length clauses = length (split_whitespace q) \<and> clauses \<noteq> []"
    using ne by (intro exI [of _ "map f (split_whitespace q)"]) simp
  obtain rest where "effective_query show_f32 boosts defaults q = ''('' @ rest"
    using join_clauses [of "map f (split_whitespace q)" "'' AND ''"] ne unfolding f by auto
  then have "\<not> plain_clause (str_trim (effective_query show_f32 boosts defaults q))"
    using trim_keeps_clause by (simp add: plain_clause_def)
  then have "try_build_json_special_query (effective_query show_f32 boosts defaults q) = None"
    by (simp add: special_by_parts)
  with clauses show ?thesis ..
qed

theorem expanded_query_is_not_rewritten_witness:
  "try_build_json_special_query (effective_query (\<lambda>_. ''1'') [] [''title''] ''wire* cat'') = None \<and>
   try_build_json_special_query ''document.title:wire*'' \<noteq> None"
proof -
  have "try_build_json_special_query (effective_query (\<lambda>_. ''1'') [] [''title''] ''wire* cat'') = None"
    using expanded_query_is_not_rewritten [of "[]" "[''title'']" "''wire* cat''" "\<lambda>_. ''1''"]
    by (simp add: contains_char_def str_trim_def is_whitespace_def)
  moreover have "try_build_json_special_query ''document.title:wire*'' = Some (JsonPrefix ''title'' ''wire'')"
    unfolding special_clause value_prefix
    by (intro conjI exI [of _ "''title''"] exI [of _ "''wire*''"] exI [of _ "''wire''"])
      (simp_all add: plain_clause_def str_trim_def is_whitespace_def to_lowercase_def char_lower_def)
  ultimately show ?thesis by simp
qed

section \<open>A search that succeeds\<close>

lemma search_Inr:
  "search S T Q r now finish w = Inr resp \<longleftrightarrow>
   (\<exists>all page counts. matches Q r now w = Inr all \<and>
      collect_page S T w (req_group_by_partition r) (unat (req_limit r)) (unat (req_offset r)) all = Inr page \<and>
      (if req_facet_fields r = [] then Inr [] else count_documents S T w (req_facet_fields r) (map snd all) []) = Inr counts \<and>
      resp = \<lparr>hits = page, total_hits = of_nat (length all), duration_ms = finish - now, facets = facet_results counts\<rparr>)"
  by (auto simp: search_def matches_def split: sum.splits if_splits)

text \<open>C26: Facet counts cover every match, not the page: for each field asked for, the count of a value is
  the number of times the matching documents hold it (each element of a list of strings counts), once
  for every time the field is asked for; \<open>total_hits\<close> is the number of matches, whatever the limit,
  the offset or the grouping; the values of a field come most frequent first.\<close>

theorem facet_counts_exact:
  assumes "search S T Q r now finish w = Inr resp" "matches Q r now w = Inr all"
  shows "facet_sum (facets resp) f v =
      of_nat (count_list (req_facet_fields r) f * count_list (concat (map (match_values S T w f) (map snd all))) v) \<and>
    total_hits resp = of_nat (length all) \<and>
    list_all (\<lambda>fr. sorted (map (\<lambda>b. - uint (bucket_count b)) (buckets fr))) (facets resp)"
proof -
  obtain page counts where c: "(if req_facet_fields r = [] then Inr []
      else count_documents S T w (req_facet_fields r) (map snd all) []) = Inr counts"
    and resp: "resp = \<lparr>hits = page, total_hits = of_nat (length all), duration_ms = finish - now, facets = facet_results counts\<rparr>"
    using assms unfolding search_Inr by auto
  have "facet_inv counts \<and> facet_count counts f v =
      of_nat (count_list (req_facet_fields r) f * count_list (concat (map (match_values S T w f) (map snd all))) v)"
  proof (cases "req_facet_fields r = []")
    case True
    then show ?thesis using c by (auto simp: facet_simps)
  next
    case False
    then have "count_documents S T w (req_facet_fields r) (map snd all) [] = Inr counts" using c by simp
    from count_documents_exact [OF this facet_inv_Nil] show ?thesis by (simp only: facet_count_Nil add_0)
  qed
  then show ?thesis
    by (simp add: resp facet_sum_results list_all_iff facet_results_sorted)
qed

lemma sample_search:
  assumes "req_query r = ''db''" "req_default_fields r = []" "req_boost_fields r = []" "req_limit r \<noteq> 0"
  shows "\<exists>resp. search ref_serde ref_tantivy ref_query r 5 7 (writer node_one) = Inr resp"
proof -
  obtain resp where "node_client ref_serde ref_tantivy ref_query 5 7 node_one r = Inr resp"
    using node_client_answer [OF sample_answers(1) assms(4)] assms by blast
  then show ?thesis
    using assms(4) by (auto simp: node_client_def search_service_def split: sum.splits)
qed

lemma sample_request_fields:
  "req_query sample_request = ''db''" "req_default_fields sample_request = []"
  "req_boost_fields sample_request = []" "req_limit sample_request \<noteq> 0"
  by (simp_all add: sample_request_def)

theorem facet_counts_exact_witness:
  "\<exists>resp. search ref_serde ref_tantivy ref_query sample_request 5 7 (writer node_one) = Inr resp \<and>
     facet_sum (facets resp) ''text'' ''a db'' = 1 \<and> total_hits resp = 2"
proof -
  obtain resp where r: "search ref_serde ref_tantivy ref_query sample_request 5 7 (writer node_one) = Inr resp"
    using sample_search [OF sample_request_fields] by blast
  have "match_values ref_serde ref_tantivy w ''text'' (text_doc i pk t) = [t]" for w i pk t
    by (simp add: match_values_def match_document_def fetch_ref text_doc_json facet_values_def bt_get_Cons)
  moreover have "req_facet_fields sample_request = [''text'']" by (simp add: sample_request_def)
  ultimately show ?thesis
    using facet_counts_exact [OF r sample_matches(1) [OF sample_request_fields(1-3)], of "''text''" "''a db''"] r
    by simp
qed

section \<open>Grouped searches\<close>

lemma group_by_first_fetchable: "group_by_first T w seen all = Inr g \<Longrightarrow> fetchable T w all"
proof (induction all arbitrary: seen g)
  case (Cons sa all)
  obtain d where d: "fetch_doc T w (snd sa) = Inr d" using Cons.prems by (auto split: sum.splits)
  then have "\<exists>seen g. group_by_first T w seen all = Inr g"
    using Cons.prems by (auto simp: Let_def split: if_splits sum.splits)
  then show ?case using Cons.IH d by (auto simp: fetchable_def)
qed (simp add: fetchable_def)

lemma hit_of_match:
  "fetchable T w all \<Longrightarrow> sa \<in> set all \<Longrightarrow> hit_partition_key (projr (search_hit_of S T w sa)) = doc_pk T w sa \<and>
    score (projr (search_hit_of S T w sa)) = fst sa"
  by (auto simp: fetchable_def list_all_iff search_hit_of_def doc_pk_def split: sum.splits)

lemma grouped_page:
  assumes "search S T Q r now finish w = Inr resp" "matches Q r now w = Inr all" "req_group_by_partition r"
  obtains g where "group_by_first T w [] (take 10000 all) = Inr g" "fetchable T w (take 10000 all)" "subseq g (take 10000 all)"
    "distinct (map (doc_pk T w) g)" "set (map (doc_pk T w) g) = doc_pk T w ` set (take 10000 all)"
    "\<forall>sa \<in> set g. \<exists>us vs. take 10000 all = us @ sa # vs \<and> doc_pk T w sa \<notin> doc_pk T w ` set us"
    "hits resp = map (\<lambda>sa. projr (search_hit_of S T w sa)) (take (unat (req_limit r)) (drop (unat (req_offset r)) g))"
proof -
  have page: "collect_page S T w True (unat (req_limit r)) (unat (req_offset r)) all = Inr (hits resp)"
    using assms unfolding search_Inr by auto
  have cap: "take (min (length all) 10000) all = take 10000 all" by (simp add: min_def)
  obtain g where g: "group_by_first T w [] (take 10000 all) = Inr g"
    "collect_hits (search_hit_of S T w) (take (unat (req_limit r)) (drop (unat (req_offset r)) g)) = Inr (hits resp)"
    using page by (auto simp: collect_page_def with_limit_def cap split: sum.splits if_splits)
  have f: "fetchable T w (take 10000 all)" by (rule group_by_first_fetchable [OF g(1)])
  have spec: "subseq g (take 10000 all)" "distinct (map (doc_pk T w) g)"
    "set (map (doc_pk T w) g) = doc_pk T w ` set (take 10000 all)"
    "\<forall>sa \<in> set g. \<exists>us vs. take 10000 all = us @ sa # vs \<and> doc_pk T w sa \<notin> doc_pk T w ` set us"
    using group_by_first_spec [OF f, of "[]"] g(1) by auto
  have "hits resp = map (\<lambda>sa. projr (search_hit_of S T w sa)) (take (unat (req_limit r)) (drop (unat (req_offset r)) g))"
    using g(2) collect_fetchable(1) [OF fetchable_take_drop [OF subseq_fetchable [OF spec(1) f]]] by simp
  with that g(1) f spec show thesis by blast
qed

text \<open>C28: A grouped search returns one hit per partition, the best one: no two hits share a partition key, no
  document among the best 10,000 matches scores above the hit of its partition, and if nothing is cut off
  (no offset, at most \<open>limit\<close> and at most 10,000 matches) every partition with a match has its hit.\<close>

theorem grouped_hits_are_partition_bests:
  assumes "search S T Q r now finish w = Inr resp" "matches Q r now w = Inr all" "req_group_by_partition r"
    and "sorted (map (\<lambda>sa. - f32_key (fst sa)) all)"
  shows "distinct (map hit_partition_key (hits resp)) \<and>
    (\<forall>h \<in> set (hits resp). \<forall>sa \<in> set (take 10000 all).
       doc_pk T w sa = hit_partition_key h \<longrightarrow> f32_key (fst sa) \<le> f32_key (score h)) \<and>
    (req_offset r = 0 \<and> length all \<le> unat (req_limit r) \<and> length all \<le> 10000 \<longrightarrow>
       hit_partition_key ` set (hits resp) = doc_pk T w ` set all)"
proof -
  obtain g where grp: "group_by_first T w [] (take 10000 all) = Inr g"
    and f: "fetchable T w (take 10000 all)" and g: "subseq g (take 10000 all)"
    "distinct (map (doc_pk T w) g)" "set (map (doc_pk T w) g) = doc_pk T w ` set (take 10000 all)"
    "\<forall>sa \<in> set g. \<exists>us vs. take 10000 all = us @ sa # vs \<and> doc_pk T w sa \<notin> doc_pk T w ` set us"
    and hits: "hits resp = map (\<lambda>sa. projr (search_hit_of S T w sa)) (take (unat (req_limit r)) (drop (unat (req_offset r)) g))"
    by (rule grouped_page [OF assms(1-3)])
  let ?g = "take (unat (req_limit r)) (drop (unat (req_offset r)) g)"
  have sub: "sa \<in> set (take 10000 all)" if "sa \<in> set g" for sa using subseq_in_set [OF g(1) that] .
  have of_hit: "hit_partition_key (projr (search_hit_of S T w sa)) = doc_pk T w sa \<and>
      score (projr (search_hit_of S T w sa)) = fst sa" if "sa \<in> set g" for sa
    using hit_of_match [OF f sub [OF that]] .
  have in_g: "sa \<in> set g" if "sa \<in> set ?g" for sa by (rule in_set_dropD [OF in_set_takeD [OF that]])
  have keys: "map hit_partition_key (hits resp) = map (doc_pk T w) ?g"
    using of_hit in_g by (simp add: hits)
  have "distinct (map (doc_pk T w) ?g)"
    using g(2) by (simp only: take_map [symmetric] drop_map [symmetric] distinct_take distinct_drop)
  moreover have "f32_key (fst sa) \<le> f32_key (score h)"
    if h: "h \<in> set (hits resp)" and sa: "sa \<in> set (take 10000 all)" "doc_pk T w sa = hit_partition_key h" for h sa
  proof -
    obtain x where x: "x \<in> set g" "h = projr (search_hit_of S T w x)" using h in_g by (auto simp: hits)
    obtain us vs where uv: "take 10000 all = us @ x # vs" "doc_pk T w x \<notin> doc_pk T w ` set us" using g(4) x(1) by blast
    have "sa \<notin> set us" using uv(2) sa(2) of_hit [OF x(1)] x(2) by (metis imageI)
    then have "sa \<in> set (x # vs)" using sa(1) uv(1) by auto
    moreover have "sorted (map (\<lambda>sa. - f32_key (fst sa)) (us @ x # vs))"
      using assms(4) unfolding uv(1) [symmetric] by (metis sorted_wrt_take take_map)
    ultimately have "f32_key (fst sa) \<le> f32_key (fst x)" by (auto simp: sorted_append)
    then show ?thesis using of_hit [OF x(1)] x(2) by simp
  qed
  moreover have "hit_partition_key ` set (hits resp) = doc_pk T w ` set all"
    if "req_offset r = 0" "length all \<le> unat (req_limit r)" "length all \<le> 10000"
  proof -
    have "length g \<le> unat (req_limit r)"
      using list_emb_length [OF g(1)] that(2) by simp
    then have "?g = g" using that(1) by simp
    then show ?thesis using keys g(3) that(3) by (metis list.set_map take_all)
  qed
  ultimately show ?thesis unfolding keys by blast
qed

lemma distinct_singleton: "distinct xs \<Longrightarrow> set xs = {x} \<Longrightarrow> xs = [x]"
proof (cases xs)
  case (Cons y ys)
  assume "distinct xs" "set xs = {x}"
  with Cons show ?thesis by (cases ys) auto
qed simp

theorem grouped_hits_are_partition_bests_witness:
  "\<exists>resp. search ref_serde ref_tantivy ref_query
       (sample_request\<lparr>req_offset := 0, req_group_by_partition := True\<rparr>) 5 7 (writer node_one) = Inr resp \<and>
     map hit_partition_key (hits resp) = [''p'']"
proof -
  let ?r = "sample_request\<lparr>req_offset := 0, req_group_by_partition := True\<rparr>"
  have fields: "req_query ?r = ''db''" "req_default_fields ?r = []" "req_boost_fields ?r = []" "req_limit ?r \<noteq> 0"
    "req_group_by_partition ?r" "req_offset ?r = 0" "unat (req_limit ?r) = 2"
    by (simp_all add: sample_request_def)
  obtain resp where r: "search ref_serde ref_tantivy ref_query ?r 5 7 (writer node_one) = Inr resp"
    using sample_search [OF fields(1-4)] by blast
  have "sorted (map (\<lambda>sa :: f32 \<times> json. - f32_key (fst sa))
      [(3, text_doc ''a'' ''p'' ''db db db''), (1, text_doc ''c'' ''p'' ''a db'')])"
    by (simp add: f32_key_def f32_magnitude_def)
  note best = grouped_hits_are_partition_bests [OF r sample_matches(1) [OF fields(1-3)] fields(5) this]
  have pk: "doc_pk ref_tantivy w (s, text_doc i pk t) = pk" for w s i pk t
    by (simp add: doc_pk_def fetch_ref doc_field_def text_doc_fields)
  have "distinct (map hit_partition_key (hits resp))" by (rule best [THEN conjunct1])
  moreover have "set (map hit_partition_key (hits resp)) = {''p''}"
    using best [THEN conjunct2, THEN conjunct2] fields(6,7) by (simp add: pk)
  ultimately have "map hit_partition_key (hits resp) = [''p'']"
    by (rule distinct_singleton)
  with r show ?thesis by (intro exI conjI)
qed

lemma empty_grouped_search:
  assumes "matches Q r now w = Inr []" "req_group_by_partition r"
  shows "search S T Q r now finish w = Inl (SearchPanic ''Limit must be strictly greater than 0'')"
proof -
  obtain query where "query_of Q (effective_query (show_boost Q) (req_boost_fields r) (req_default_fields r) (req_query r)) = Inr query"
    "ranked Q w query now = Inr []"
    using assms(1) unfolding matches_def by (auto split: sum.splits)
  then show ?thesis using assms(2) by (simp add: search_def collect_page_def with_limit_def)
qed



section \<open>What a hit is\<close>

text \<open>Tantivy's part: of the documents the reader shows, a search returns, each once, those the query
  selects whose \<open>expires_at\<close> lies after the given time.\<close>

definition live :: "('w, 'a, 'd) tantivy \<Rightarrow> i64 \<Rightarrow> 'd \<Rightarrow> bool" where
  "live T now d = (case doc_expires_at T d of None \<Rightarrow> False | Some x \<Rightarrow> sint now < sint x)"

definition query_laws ::
  "('w, 'a, 'd) tantivy \<Rightarrow> ('w, 'd) index_view \<Rightarrow> ('w, 'a, 'q) query_engine \<Rightarrow> ('q \<Rightarrow> 'd \<Rightarrow> bool) \<Rightarrow> bool" where
  "query_laws T V Q selects =
     (\<forall>w q now all. ranked Q w q now = Inr all \<longrightarrow>
        (\<exists>ds. map (\<lambda>sa. fetch_doc T w (snd sa)) all = map Inr ds \<and>
           mset ds = filter_mset (\<lambda>d. selects q d \<and> live T now d) (mset (visible V w))))"

lemma collect_hits_map: "collect_hits f xs = Inr ys \<Longrightarrow> ys = map (\<lambda>x. projr (f x)) xs"
  by (induction xs arbitrary: ys) (auto split: sum.splits)

lemma page_part: "subseq (take n (drop k xs)) xs"
  by (meson sublist_imp_subseq sublist_take sublist_drop subseq_order.order_trans)

lemma search_page:
  assumes "search S T Q r now finish w = Inr resp" "matches Q r now w = Inr all"
  obtains page where "subseq page all" "hits resp = map (\<lambda>sa. projr (search_hit_of S T w sa)) page"
proof (cases "req_group_by_partition r")
  case True
  obtain g where grp: "group_by_first T w [] (take 10000 all) = Inr g"
    and f: "fetchable T w (take 10000 all)" and g: "subseq g (take 10000 all)"
    "distinct (map (doc_pk T w) g)" "set (map (doc_pk T w) g) = doc_pk T w ` set (take 10000 all)"
    "\<forall>sa \<in> set g. \<exists>us vs. take 10000 all = us @ sa # vs \<and> doc_pk T w sa \<notin> doc_pk T w ` set us"
    and hits: "hits resp = map (\<lambda>sa. projr (search_hit_of S T w sa)) (take (unat (req_limit r)) (drop (unat (req_offset r)) g))"
    by (rule grouped_page [OF assms True])
  have "subseq g all" using g(1) page_part [of 10000 0 all] subseq_order.order_trans by auto
  then have "subseq (take (unat (req_limit r)) (drop (unat (req_offset r)) g)) all"
    using page_part subseq_order.order_trans by blast
  then show thesis using that hits by blast
next
  case False
  have "collect_page S T w False (unat (req_limit r)) (unat (req_offset r)) all = Inr (hits resp)"
    using assms False unfolding search_Inr by auto
  then have "collect_hits (search_hit_of S T w) (take (unat (req_limit r)) (drop (unat (req_offset r)) all)) = Inr (hits resp)"
    by (auto simp: collect_page_def with_limit_def split: if_splits)
  from collect_hits_map [OF this] show thesis using that page_part by blast
qed

lemma subseq_distinct_map: "subseq xs ys \<Longrightarrow> distinct (map f ys) \<Longrightarrow> distinct (map f xs)"
proof (induction rule: list_emb.induct)
  case (list_emb_Cons2 x y xs ys)
  then show ?case using subseq_in_set [OF list_emb_Cons2(2)] by auto
qed auto

lemma distinct_of_counts: "(\<And>i. length (filter (\<lambda>x. f x = i) xs) \<le> 1) \<Longrightarrow> distinct (map f xs)"
proof (induction xs)
  case (Cons x xs)
  have "length (filter (\<lambda>y. f y = i) xs) \<le> 1" for i
    using Cons.prems [of i] by (auto split: if_splits)
  moreover have "filter (\<lambda>y. f y = f x) xs = []" using Cons.prems [of "f x"] by simp
  ultimately show ?case using Cons.IH by (auto simp: filter_empty_conv)
qed simp

lemma sound_field_id: "sound_docs S T xs \<Longrightarrow> x \<in> set xs \<Longrightarrow> doc_field T x FieldId = i \<longleftrightarrow> has_term T FieldId i x"
  by (auto simp: sound_docs_def stored_as_def stores_def doc_field_def has_term_def)

lemma size_filter: "size (filter_mset P (mset xs)) = length (filter P xs)"
  by (simp flip: mset_filter)

lemma sound_distinct_ids:
  assumes "sound_docs S T xs" "mset ds \<subseteq># mset xs"
  shows "distinct (map (\<lambda>d. doc_field T d FieldId) ds)"
proof (rule distinct_of_counts)
  fix i
  have "length (filter (\<lambda>d. doc_field T d FieldId = i) ds) = size (filter_mset (\<lambda>d. doc_field T d FieldId = i) (mset ds))"
    by (simp only: size_filter)
  also have "\<dots> \<le> size (filter_mset (\<lambda>d. doc_field T d FieldId = i) (mset xs))"
    by (rule size_mset_mono [OF multiset_filter_mono [OF assms(2)]])
  also have "\<dots> = length (filter (has_term T FieldId i) xs)"
    unfolding size_filter using sound_field_id [OF assms(1)] by (simp cong: filter_cong)
  also have "\<dots> \<le> 1" using assms(1) by (simp add: sound_docs_def)
  finally show "length (filter (\<lambda>d. doc_field T d FieldId = i) ds) \<le> 1" .
qed

text \<open>The documents behind the matches of a search.\<close>

lemma matches_docs:
  fixes T :: "('w, 'a, 'd) tantivy"
  assumes "query_laws T V Q selects" "matches Q r now w = Inr all"
  obtains q doc_at where
    "query_of Q (effective_query (show_boost Q) (req_boost_fields r) (req_default_fields r) (req_query r)) = Inr q"
    "\<forall>sa \<in> set all. fetch_doc T w (snd sa) = Inr (doc_at sa)"
    "mset (map doc_at all) = filter_mset (\<lambda>d. selects q d \<and> live T now d) (mset (visible V w))"
proof -
  obtain q where q: "query_of Q (effective_query (show_boost Q) (req_boost_fields r) (req_default_fields r) (req_query r)) = Inr q"
    "ranked Q w q now = Inr all"
    using assms(2) unfolding matches_def by (auto split: sum.splits)
  obtain ds where ds: "map (\<lambda>sa. fetch_doc T w (snd sa)) all = map Inr ds"
    "mset ds = filter_mset (\<lambda>d. selects q d \<and> live T now d) (mset (visible V w))"
    using assms(1) q(2) unfolding query_laws_def by blast
  define doc_at where "doc_at sa = projr (fetch_doc T w (snd sa))" for sa :: "f32 \<times> 'a"
  have "map doc_at all = map projr (map (\<lambda>sa. fetch_doc T w (snd sa)) all)" by (simp add: doc_at_def comp_def)
  then have at: "map doc_at all = ds" unfolding ds(1) by (simp add: comp_def)
  have "fetch_doc T w (snd sa) = Inr (doc_at sa)" if sa: "sa \<in> set all" for sa
  proof -
    have "fetch_doc T w (snd sa) \<in> set (map Inr ds)" unfolding ds(1) [symmetric] using sa by simp
    then show ?thesis by (auto simp: doc_at_def)
  qed
  with that q(1) ds(2) at show thesis by blast
qed

text \<open>A search whose page has room for every match shows each of them.\<close>

lemma search_finds:
  fixes T :: "('w, 'a, 'd) tantivy"
  assumes "query_laws T V Q selects" "search S T Q r now finish w = Inr resp"
    and "\<not> req_group_by_partition r" "req_offset r = 0"
    and "query_of Q (effective_query (show_boost Q) (req_boost_fields r) (req_default_fields r) (req_query r)) = Inr q"
    and "length (filter (\<lambda>d. selects q d \<and> live T now d) (visible V w)) \<le> unat (req_limit r)"
    and "x \<in> set (visible V w)" "selects q x" "live T now x"
  shows "doc_field T x FieldId \<in> hit_id ` set (hits resp)"
proof -
  obtain all where all: "matches Q r now w = Inr all"
    and page: "collect_page S T w False (unat (req_limit r)) 0 all = Inr (hits resp)"
    using assms(2-4) unfolding search_Inr by auto
  obtain q' and doc_at :: "f32 \<times> 'a \<Rightarrow> 'd" where
    q': "query_of Q (effective_query (show_boost Q) (req_boost_fields r) (req_default_fields r) (req_query r)) = Inr q'"
    and fetch: "\<forall>sa \<in> set all. fetch_doc T w (snd sa) = Inr (doc_at sa)"
    and docs: "mset (map doc_at all) = filter_mset (\<lambda>d. selects q' d \<and> live T now d) (mset (visible V w))"
    by (rule matches_docs [OF assms(1) all])
  have q: "q' = q" using assms(5) q' by simp
  have "length all = length (filter (\<lambda>x. selects q x \<and> live T now x) (visible V w))"
    using arg_cong [OF docs, of size] unfolding q by (simp only: size_mset length_map size_filter)
  then have "collect_hits (search_hit_of S T w) all = Inr (hits resp)"
    using page assms(6) by (auto simp: collect_page_def with_limit_def split: if_splits)
  from collect_hits_map [OF this] have hits: "hits resp = map (\<lambda>sa. projr (search_hit_of S T w sa)) all" .
  have "x \<in># mset (map doc_at all)" unfolding docs q using assms(7-9) by simp
  then obtain sa where sa: "sa \<in> set all" "x = doc_at sa" by auto
  then have "hit_id (projr (search_hit_of S T w sa)) = doc_field T x FieldId"
    using fetch by (simp add: search_hit_of_def)
  with sa(1) show ?thesis unfolding hits by force
qed

text \<open>Every hit is read from a document the query selects and that was live when the search began.\<close>

lemma search_hits_visible:
  fixes T :: "('w, 'a, 'd) tantivy"
  assumes "query_laws T V Q selects" "sound_docs S T (visible V w)" "search S T Q r now finish w = Inr resp" "h \<in> set (hits resp)"
  shows "\<exists>q. query_of Q (effective_query (show_boost Q) (req_boost_fields r) (req_default_fields r) (req_query r)) = Inr q \<and>
    (\<exists>x \<in> set (visible V w). selects q x \<and> live T now x \<and>
       has_term T FieldId (hit_id h) x \<and> has_term T FieldPartitionKey (hit_partition_key h) x)"
proof -
  obtain all where all: "matches Q r now w = Inr all"
    using assms(3) unfolding search_Inr by auto
  obtain q and doc_at :: "f32 \<times> 'a \<Rightarrow> 'd" where q: "query_of Q (effective_query (show_boost Q) (req_boost_fields r) (req_default_fields r) (req_query r)) = Inr q"
    and fetch: "\<forall>sa \<in> set all. fetch_doc T w (snd sa) = Inr (doc_at sa)"
    and docs: "mset (map doc_at all) = filter_mset (\<lambda>d. selects q d \<and> live T now d) (mset (visible V w))"
    by (rule matches_docs [OF assms(1) all])
  obtain page where page: "subseq page all" "hits resp = map (\<lambda>sa. projr (search_hit_of S T w sa)) page"
    by (rule search_page [OF assms(3) all])
  then obtain sa where sa: "sa \<in> set all" "h = projr (search_hit_of S T w sa)"
    using assms(4) subseq_in_set [OF page(1)] by auto
  have hit: "hit_id h = doc_field T (doc_at sa) FieldId" "hit_partition_key h = doc_field T (doc_at sa) FieldPartitionKey"
    using bspec [OF fetch sa(1)] by (simp_all add: sa(2) search_hit_of_def)
  have "doc_at sa \<in># mset (map doc_at all)" using sa(1) by simp
  then have x: "doc_at sa \<in> set (visible V w)" "selects q (doc_at sa)" "live T now (doc_at sa)"
    unfolding docs by simp_all
  then obtain d where "stored_as S T (doc_at sa) d" using assms(2) by (auto simp: sound_docs_def)
  then have "has_term T FieldId (hit_id h) (doc_at sa)" "has_term T FieldPartitionKey (hit_partition_key h) (doc_at sa)"
    using hit by (auto simp: stored_as_def stores_def has_term_def doc_field_def)
  with x q show ?thesis by blast
qed


lemma ref_text_wrapper: "ref_text (full_doc_wrapper i pk ex (JObject [(''text'', JString t)]) wt) = split_whitespace t"
  by (simp add: ref_text_def full_doc_wrapper_def wrapper_get bt_get_Cons)

lemma ref_query_laws: "query_laws ref_tantivy ref_view ref_query (\<lambda>q d. q \<in> set (ref_text d))"
  by (auto simp: query_laws_def ref_query_def ref_ranked_def ref_view_def ref_tantivy_def live_def comp_def
      multiset.map_comp intro!: exI [of _ "map snd _"] simp flip: mset_filter)

definition searched_engine :: "ref_index engine" where
  "searched_engine = reload_reader ref_tantivy (commit_tick ref_tantivy False (fst (process_batch ref_serde ref_tantivy
     [sample_op OpUpsert ''p'' 5 (JObject [(''text'', JString ''db'')])] ref_engine)))"

lemma searched_engine_reach: "engine_reach ref_serde ref_tantivy ref_empty searched_engine"
proof -
  let ?e = "fst (process_batch ref_serde ref_tantivy [sample_op OpUpsert ''p'' 5 (JObject [(''text'', JString ''db'')])] ref_engine)"
  have "engine_reach ref_serde ref_tantivy ref_empty ?e"
    by (rule engine_reach.step [OF engine_reach.start engine_step.batch [OF prod.collapse [symmetric]]])
  moreover have "commit_ok ref_tantivy (writer ?e)" by (simp add: commit_ok_def ref_eval)
  ultimately have "engine_reach ref_serde ref_tantivy ref_empty (commit_tick ref_tantivy False ?e)"
    by (blast intro: engine_reach.step engine_step.commits)
  then show ?thesis
    unfolding searched_engine_def by (rule engine_reach.step [OF _ engine_step.reloads])
qed

lemma ref_search_ok:
  assumes "matches Q r now w = Inr all" "\<not> req_group_by_partition r" "req_limit r \<noteq> 0"
  shows "\<exists>resp. search S ref_tantivy Q r now finish w = Inr resp"
proof -
  have f: "fetchable ref_tantivy w all" by (simp add: fetchable_def fetch_ref list_all_iff)
  obtain counts where "(if req_facet_fields r = [] then Inr [] else
      count_documents S ref_tantivy w (req_facet_fields r) (map snd all) []) = Inr counts"
    using count_documents_ok [OF f, of S "req_facet_fields r" "[]"] by (cases "req_facet_fields r = []") auto
  moreover have "unat (req_limit r) \<noteq> 0" using assms(3) by (simp add: unat_eq_0)
  then have "\<exists>page. collect_page S ref_tantivy w False (unat (req_limit r)) (unat (req_offset r)) all = Inr page"
    using collect_fetchable(1) [OF fetchable_take_drop [OF f]] by (simp add: collect_page_def with_limit_def)
  ultimately show ?thesis using assms(1,2) unfolding search_Inr by auto
qed


end
