(* ===== verification/Delivery.thy ===== *)
theory Delivery
  imports Engine_Spec Pipeline Search_Props
begin

text \<open>
  The whole way of a row: consumed by the ingestor, held and published by its node, found by the node's search and
  merged into the page the gateway answers with.
\<close>

section \<open>The gateway's answer\<close>

text \<open>What was consumed reaches whoever asks the gateway. Under the conditions of \<open>published_row\<close>, once the node of the row
  has committed and reloaded, the HTTP handler's answer to an ungrouped search under consistency ALL that sends its request to that
  node among others, whose query selects the documents of the row's key while they are live, and whose page has room
  for all that is found, holds a hit with the row's key.\<close>

theorem consumed_rows_reach_the_gateway:
  fixes T :: "('w, 'a, 'd) tantivy" and Q :: "('w, 'a, 'q) query_engine"
  assumes "on_nodes S T V E" "accepts S T" "env_serde E = S" "serde_roundtrip S" "query_laws T V Q selects"
    and "\<forall>a. settled S T V (nodes n a)" "buffer svc = []" "writes_only (rows_of events)" "times_in_range (env_formats E) (rows_of events)"
    and "ingest E R events helds (svc, n) = (helds', st1, Inr ())"
    and "flush_service E st1 = ((svc', n'), Inr ())"
    and "row \<in> set (rows_of events)" "determine row \<noteq> Skip" "target_of (env_formats E) R row = Inr target"
    and "commit_ok T (writer (nodes n' (node_address target)))" "\<not> poisoned (nodes n' (node_address target))"
    and "e = reload_reader T (commit_tick T False (nodes n' (node_address target)))"
    and "key = joined_key (env_formats E) row (full_pk_columns R)"
    and "node_client S T Q now finish e \<in> set clients" "search_handler clients req = (200, Inr resp)"
    and "req_consistency req = 2" "req_offset req = 0" "\<not> req_group_by_partition req"
    and "query_of Q (effective_query (show_boost Q) (req_boost_fields req) (req_default_fields req) (req_query req)) = Inr q"
    and "\<forall>x \<in> set (visible V (writer e)). doc_field T x FieldId = key \<longrightarrow> selects q x \<and> live T now x"
    and "length (filter (\<lambda>y. selects q y \<and> live T now y) (visible V (writer e))) \<le> unat (req_limit req)"
    and "length (concat (map hits (answers_of (map (\<lambda>client. client (node_request req)) clients)))) \<le> unat (req_limit req)"
  shows "key \<in> hit_id ` set (hits resp)"
proof -
  obtain x where "x \<in> set (visible V (writer e))" "has_term T FieldId key x"
    unfolding assms(17,18) by (rule published_row [OF assms(1-4,6-16)])
  then have x: "x \<in> set (visible V (writer e))" "doc_field T x FieldId = key"
    by (simp_all add: has_term_def doc_field_def)
  then have selected: "selects q x" "live T now x" using assms(25) by blast+
  have "scatter_gather clients req = Inr resp"
    using assms(20) by (simp add: search_handler_def split: sum.splits)
  from page_holds_answers [OF this assms(21,22,19,27)] obtain a where
    a: "node_client S T Q now finish e (node_request req) = Inr a" "set (hits a) \<subseteq> set (hits resp)"
    by blast
  have "search S T Q (node_request req) now finish (writer e) = Inr a"
    using a(1) by (auto simp: node_client_def search_service_def split: sum.splits if_splits)
  then have "doc_field T x FieldId \<in> hit_id ` set (hits a)"
    by (rule search_finds [OF assms(5)]) (use assms(22-24,26) x(1) selected in \<open>simp_all add: node_request_def\<close>)
  then show ?thesis using a(2) x(2) by auto
qed

section \<open>Upserts of one key\<close>

text \<open>Expiry times are never before the epoch.\<close>

lemma expires_nonneg: "0 \<le> sint (expires_at_of wt ttl)"
  by (auto simp: expires_at_sint i64_max_int_def split: option.split)

text \<open>Upserts of one id: nothing else is ever pending, and nothing expires before the epoch.\<close>

definition only_key :: "string \<Rightarrow> store \<Rightarrow> bool" where
  "only_key key st = (\<forall>i d. next_docs st i = Some d \<longrightarrow> i = key \<and> 0 \<le> sint (doc_expires d))"

lemma store_op_only_key:
  assumes "only_key key st" "op_type_of op = OpUpsert" "op_id op = key" "store_op S T op st = (st', ok)"
  shows "only_key key st'"
proof -
  have "0 \<le> sint (doc_expires (upserted_doc S x g op))" for x g by (simp add: upserted_doc_def expires_nonneg)
  then show ?thesis using assms by (auto simp: store_op_def only_key_def Let_def split: if_splits)
qed

lemma only_key_contract:
  assumes laws: "serde_wf S" "writer_laws T V" "storage_laws S T" "reader_laws T V"
  shows "batch_contract S T (\<lambda>op. op_type_of op = OpUpsert \<and> op_id op = key)
    (\<lambda>_ e. engine_inv S T V e \<and> only_key key (store_of S T V e)) (\<lambda>_ _. True)"
proof (rule contract_of_ops)
  fix a op e e' r
  assume op: "op_type_of op = OpUpsert \<and> op_id op = key" "process_op S T op e = (e', r)"
    and inv: "engine_inv S T V e \<and> only_key key (store_of S T V e)"
  have "only_key key (store_of S T V e')"
  proof (cases "\<exists>err. r = Failed err")
    case True
    then show ?thesis
      using failed_upsert_store [OF laws(2,4)] op(2) inv by (auto simp: only_key_def split: if_splits)
  next
    case False
    have "store_op S T op (store_of S T V e) = (store_of S T V e', r = Processed)"
      by (rule process_op_is_store_op [OF laws _ op(2) False]) (use inv in simp)
    with inv op(1) show ?thesis using store_op_only_key by blast
  qed
  then show "(engine_inv S T V e' \<and> only_key key (store_of S T V e')) \<and> (\<forall>op'. True \<longrightarrow> True) \<and> ((\<nexists>err. r = Failed err) \<longrightarrow> True)"
    using engine_inv_op [OF laws(1-3) _ op(2)] inv by simp
qed

section \<open>Samples\<close>

text \<open>A query engine that finds everything that is live, with score one.\<close>

definition find_all :: "(ref_index, json, string) query_engine" where
  "find_all = ref_query\<lparr>ranked := (\<lambda>w q now.
     Inr (map (\<lambda>d. (1, d)) (filter (\<lambda>d. live ref_tantivy now d) (r_visible w))))\<rparr>"

lemma find_all_laws: "query_laws ref_tantivy ref_view find_all (\<lambda>_ _. True)"
  by (auto simp: query_laws_def find_all_def ref_view_def ref_tantivy_def comp_def multiset.map_comp
      intro!: exI [of _ "filter (live _ _) _"] simp flip: mset_filter)

definition all_request :: search_request where
  "all_request = sample_request\<lparr>req_offset := 0, req_limit := 2, req_consistency := 2, req_facet_fields := []\<rparr>"

lemma find_all_query: "query_of find_all (effective_query f [] [] ''db'') = Inr ''db''"
proof -
  have ops: "parse_query find_all = parse_query ref_query" "special find_all = special ref_query"
    by (simp_all add: find_all_def)
  show ?thesis using db_query [of f] unfolding query_of_def ops .
qed

lemma find_all_answers: "node_answers ref_tantivy find_all now e all_request"
proof -
  have "matches find_all all_request now w = Inr (map (\<lambda>d. (1, d)) (filter (\<lambda>d. live ref_tantivy now d) (r_visible w)))" for w
    by (simp add: matches_def all_request_def sample_request_def find_all_query) (simp add: find_all_def)
  then show ?thesis
    by (simp add: node_answers_def list_all_iff fetch_ref all_request_def sample_request_def f32_is_nan_def f32_magnitude_def
        comp_def map_replicate_const)
qed

text \<open>Any node answers a search for everything, and a gateway with its client alone answers with it.\<close>

lemma everything_answered:
  obtains a resp where "node_client ref_serde ref_tantivy find_all (- 1) 0 e (node_request all_request) = Inr a"
    "length (hits a) \<le> 2"
    "search_handler [node_client ref_serde ref_tantivy find_all (- 1) 0 e] all_request = (200, Inr resp)"
proof -
  let ?c = "node_client ref_serde ref_tantivy find_all (- 1) 0 e"
  have req: "req_offset all_request = 0" "req_limit all_request = 2"
    by (simp_all add: all_request_def sample_request_def)
  have "req_limit all_request + req_offset all_request \<noteq> 0" by (simp add: req)
  from engine_client.answer_hits [of ref_tantivy find_all "- 1" e, OF _ this, of ref_serde 0] obtain a where
    a: "?c (node_request all_request) = Inr a" and "hits a = take (unat (req_limit all_request + req_offset all_request))
        (full_hits ref_serde ref_tantivy find_all (- 1) e all_request)"
    using find_all_answers by (auto simp: node_answers_request)
  then have short: "length (hits a) \<le> 2" by (simp add: req)
  have "check_consistency (consistency_of all_request) (length [Inr a :: call_failure + search_response]) (gather [Inr a]) = None"
    unfolding check_consistency_gather by simp
  then obtain resp where "search_handler [?c] all_request = (200, Inr resp)"
    using a by (auto simp: search_handler_def scatter_gather_def Let_def)
  with a short that show thesis by blast
qed

abbreviation (input) piped_key :: string where
  "piped_key \<equiv> joined_key sample_formats piped_row (full_pk_columns (sample_router [''n'']))"

lemma piped_only_key:
  assumes "ingest piped_env (sample_router [''n'']) [Row ''s'' piped_row, Tick] no_starts (new_service ''ks.t'', piped_net) =
      (no_starts, st1, Inr ())" "flush_service piped_env st1 = ((svc', n'), Inr ())"
  shows "engine_inv ref_serde ref_tantivy ref_view (nodes n' a) \<and>
    only_key piped_key (store_of ref_serde ref_tantivy ref_view (nodes n' a))"
proof -
  let ?p = "\<lambda>op. op_type_of op = OpUpsert \<and> op_id op = piped_key"
  have env: "env_formats piped_env = sample_formats" by (simp add: piped_env_def)
  have "?p (operation_of item)" if "forwarded_item piped_env (sample_router [''n'']) piped_row OpUpsert = Inr item" for item
    using forwarded_fields [OF that] by (auto simp: operation_of_def env)
  then have fwd: "list_all (forwards piped_env (sample_router [''n'']) ?p) (rows_of [Row ''s'' piped_row, Tick])"
    using piped_forward by (simp add: forwards_def)
  have "next_docs (store_of ref_serde ref_tantivy ref_view ref_engine) = Map.empty"
    by (rule ext) (simp add: store_of_def docs_of_def new_engine_def ref_eval)
  then have start: "\<forall>a. engine_inv ref_serde ref_tantivy ref_view (nodes piped_net a) \<and>
      only_key piped_key (store_of ref_serde ref_tantivy ref_view (nodes piped_net a))"
    using ref_engine_inv by (simp add: sample_net_def only_key_def)
  have "buffer (new_service ''ks.t'') = []" by (simp add: new_service_def)
  from ingested_and_flushed(2) [OF piped_on_nodes only_key_contract [OF ref_serde_wf ref_writer_laws ref_storage_laws
      ref_reader_laws] fwd start this assms]
  show ?thesis by blast
qed

lemma piped_published:
  assumes "ingest piped_env (sample_router [''n'']) [Row ''s'' piped_row, Tick] no_starts (new_service ''ks.t'', piped_net) =
      (no_starts, st1, Inr ())" "flush_service piped_env st1 = ((svc', n'), Inr ())" "serving n'"
    and "x \<in> set (visible ref_view (writer (reload_reader ref_tantivy (commit_tick ref_tantivy False (nodes n' a)))))"
  shows "has_term ref_tantivy FieldId piped_key x \<and> live ref_tantivy (- 1) x"
proof -
  let ?e = "reload_reader ref_tantivy (commit_tick ref_tantivy False (nodes n' a))"
  note key = piped_only_key [OF assms(1,2), of a]
  have up: "commit_ok ref_tantivy (writer (nodes n' a))" "\<not> poisoned (nodes n' a)"
    using assms(3) by (simp_all add: serving_def commit_ok_def ref_eval)
  have "engine_inv ref_serde ref_tantivy ref_view ?e"
    using engine_inv_reload [OF ref_writer_laws engine_inv_commit [OF ref_writer_laws]] key up(1) by blast
  then obtain d where d: "stored_as ref_serde ref_tantivy x d"
    using assms(4) by (auto simp: inv_defs sound_docs_def)
  have "next_docs (store_of ref_serde ref_tantivy ref_view (nodes n' a)) (doc_id d) = Some (as_read ref_tantivy d)"
    by (rule published_doc [OF ref_writer_laws _ up assms(4) d]) (use key in blast)
  then have "doc_id d = piped_key \<and> 0 \<le> sint (doc_expires (as_read ref_tantivy d))"
    using key unfolding only_key_def by blast
  then have "doc_id d = piped_key" "0 \<le> sint (doc_expires d)" by simp_all
  then show ?thesis
    using d stored_as_terms(1) [OF d] by (auto simp: stored_as_def stores_def live_def)
qed

text \<open>The node of the row answers a search for everything, and its one client is enough for the gateway.\<close>

lemma piped_answered:
  assumes "ingest piped_env (sample_router [''n'']) [Row ''s'' piped_row, Tick] no_starts (new_service ''ks.t'', piped_net) =
      (no_starts, st1, Inr ())" "flush_service piped_env st1 = ((svc', n'), Inr ())" "serving n'"
    and "e = reload_reader ref_tantivy (commit_tick ref_tantivy False (nodes n' (node_address ''n'')))"
    and "c = node_client ref_serde ref_tantivy find_all (- 1) 0 e"
  obtains resp where "search_handler [c] all_request = (200, Inr resp)"
    "\<forall>x \<in> set (visible ref_view (writer e)). doc_field ref_tantivy x FieldId = piped_key \<longrightarrow> True \<and> live ref_tantivy (- 1) x"
    "length (filter (\<lambda>y. True \<and> live ref_tantivy (- 1) y) (visible ref_view (writer e))) \<le> unat (req_limit all_request)"
    "length (concat (map hits (answers_of (map (\<lambda>client. client (node_request all_request)) [c])))) \<le> unat (req_limit all_request)"
proof -
  have env: "env_serde piped_env = ref_serde" "env_formats piped_env = sample_formats" by (simp_all add: piped_env_def)
  have start: "\<forall>a. settled ref_serde ref_tantivy ref_view (nodes piped_net a)" "buffer (new_service ''ks.t'') = []"
    using fresh_settled [OF ref_fresh ref_reader_laws] by (simp_all add: sample_net_def new_service_def)
  have row: "piped_row \<in> set (rows_of [Row ''s'' piped_row, Tick])" by simp
  have ok: "commit_ok ref_tantivy (writer (nodes n' (node_address ''n'')))" "\<not> poisoned (nodes n' (node_address ''n''))"
    using assms(3) by (simp_all add: commit_ok_def ref_eval serving_def)
  obtain x where "filter (has_term ref_tantivy FieldId piped_key) (visible ref_view (writer e)) = [x]"
    using published_row [OF piped_on_nodes ref_accepts env(1) ref_serde_roundtrip start piped_writes piped_times assms(1,2) row
        piped_not_skipped piped_target ok] unfolding assms(4) env by blast
  moreover have all: "\<forall>x \<in> set (visible ref_view (writer e)). has_term ref_tantivy FieldId piped_key x \<and> live ref_tantivy (- 1) x"
    using piped_published [OF assms(1-3)] by (simp add: assms(4))
  ultimately have one: "visible ref_view (writer e) = [x]" by (simp add: filter_id_conv)
  obtain a resp where a: "c (node_request all_request) = Inr a" "length (hits a) \<le> 2"
    and resp: "search_handler [c] all_request = (200, Inr resp)"
    unfolding assms(5) by (rule everything_answered)
  show thesis
    by (rule that [OF resp]) (use all a in \<open>simp_all add: one all_request_def sample_request_def answers_of_def List.map_filter_simps\<close>)
qed

end
