(* ===== verification/Processes.thy ===== *)
theory Processes
  imports Start_Up Delivery
begin

text \<open>
  The ingestor's and the gateway's processes as wholes (\<open>ingestor/src/main.rs\<close>, \<open>gateway/src/main.rs\<close>,
  \<open>gateway/src/server\<close>): what the ingestor does with its rows until it is interrupted or its CDC reader ends, and the
  gateway from its arguments to the answer of an HTTP request. HTTP and the endpoints are libraries, arguments here.
\<close>

section \<open>The ingestor until it ends\<close>

text \<open>While the reader runs, rows of the streams and rounds of the ticker take turns. A round that fails raises the
  backpressure and the ticker goes on; the reader, a library, ends with the error of the first row that fails.\<close>

fun serve ::
  "'n ingest_env \<Rightarrow> router \<Rightarrow> ingest_event list \<Rightarrow> (string \<Rightarrow> consumer) \<Rightarrow> 'n ingest_state \<Rightarrow>
   'n ingest_state \<times> (ingest_error + unit)" where
  "serve E R [] helds st = (st, Inr ())"
| "serve E R (Row s row # events) helds st =
     (case consume_cdc E R row (helds s) st of
        (held, st', Inl e) \<Rightarrow> (st', Inl e)
      | (held, st', Inr _) \<Rightarrow> serve E R events (helds(s := held)) st')"
| "serve E R (Tick # events) helds st =
     serve E R events helds (ticker_round (env_codec E) (env_iter E) (env_transport E) (fst st) (snd st))"

text \<open>The \<open>select!\<close> of \<open>main\<close>: \<open>ctrl_c\<close>, or the handle of the reader.\<close>

datatype reader_error = RowError ingest_error | ReaderError string

datatype ending = CtrlC | ReaderDone "string + unit"

definition run_ingestor ::
  "'n ingest_env \<Rightarrow> router \<Rightarrow> ingest_event list \<Rightarrow> ending \<Rightarrow> 'n ingest_state \<Rightarrow> 'n ingest_state \<times> (reader_error + unit)" where
  "run_ingestor E R events ending st =
     (case serve E R events (\<lambda>_. new_consumer) st of
        (st', Inl e) \<Rightarrow> (st', Inl (RowError e))
      | (st', Inr _) \<Rightarrow>
          (case ending of
             CtrlC \<Rightarrow> (fst (shutdown_ingestor E st'), Inr ())
           | ReaderDone (Inr _) \<Rightarrow> (st', Inr ())
           | ReaderDone (Inl e) \<Rightarrow> (st', Inl (ReaderError e))))"

text \<open>A run without failing rounds is one of \<open>ingest\<close>.\<close>

lemma ingest_serve:
  "ingest E R events helds st = (helds', st', Inr ()) \<Longrightarrow> serve E R events helds st = (st', Inr ())"
proof (induction E R events helds st rule: ingest.induct)
  case (3 E R events helds st)
  then show ?case by (auto simp: flush_service_def ticker_round_def split: prod.splits sum.splits)
qed (auto split: prod.splits sum.splits)

text \<open>A row, insert, update or delete, that is to be buffered as an item.\<close>

definition becomes :: "'n ingest_env \<Rightarrow> router \<Rightarrow> ingest_event \<Rightarrow> batch_item \<Rightarrow> bool" where
  "becomes E R event item =
     (\<exists>s row t. event = Row s row \<and> determine row = Forward t \<and> forwarded_item E R row t = Inr item)"

lemma consume_buffers:
  assumes "determine row = Forward t" "forwarded_item E R row t = Inr item"
    and "\<not> is_backpressure_active svc" "length (buffer svc) + 1 < batch_limit svc"
  shows "consume_cdc E R row held (svc, n) =
    (held, (svc\<lparr>buffer := buffer svc @ [item_to_string (env_codec E) item]\<rparr>, n), Inr ())"
  using assms by (simp add: consume_cdc_def route_forward_def enqueue_batch_item_def add_def Let_def)

lemma serve_buffers:
  assumes "list_all2 (becomes E R) events items" "\<not> is_backpressure_active svc"
    and "length (buffer svc) + length items < batch_limit svc"
  shows "serve E R (events @ rest) helds (svc, n) =
    serve E R rest helds (svc\<lparr>buffer := buffer svc @ map (item_to_string (env_codec E)) items\<rparr>, n)"
  using assms
proof (induction events items arbitrary: svc rule: list_all2_induct)
  case (Cons event events item items)
  obtain s row t where ev: "event = Row s row" "determine row = Forward t" "forwarded_item E R row t = Inr item"
    using Cons(1) by (auto simp: becomes_def)
  let ?svc = "svc\<lparr>buffer := buffer svc @ [item_to_string (env_codec E) item]\<rparr>"
  have "\<not> is_backpressure_active ?svc" using Cons.prems(1) by (simp add: is_backpressure_active_def)
  from Cons.IH [OF this] Cons.prems consume_buffers [OF ev(2,3) Cons.prems(1)] show ?case
    by (simp add: ev(1))
qed simp

section \<open>What an end leaves behind\<close>

text \<open>C18: A reader that ends takes the buffer with it. Rows that were consumed since the last flush, fewer than a batch,
  are in the buffer and nowhere else; when the CDC reader finishes, when it fails, and when one further row that cannot be
  forwarded fails it, the process ends with its nodes exactly as they were before these rows and none of their items sent.
  Only an interrupt flushes them first.\<close>

theorem reader_end_drops_buffer:
  assumes "list_all2 (becomes E R) events items" "\<not> is_backpressure_active svc"
    and "length (buffer svc) + length items < batch_limit svc"
    and "determine bad = Forward t" "forwarded_item E R bad t = Inl e"
    and "left = svc\<lparr>buffer := buffer svc @ map (item_to_string (env_codec E)) items\<rparr>"
  shows "run_ingestor E R events (ReaderDone (Inr ())) (svc, n) = ((left, n), Inr ()) \<and>
    run_ingestor E R events (ReaderDone (Inl err)) (svc, n) = ((left, n), Inl (ReaderError err)) \<and>
    run_ingestor E R (events @ [Row s bad]) ending (svc, n) = ((left, n), Inl (RowError e)) \<and>
    run_ingestor E R events CtrlC (svc, n) = (fst (flush_service E (left, n)), Inr ())"
proof -
  note buffered = serve_buffers [OF assms(1-3), folded assms(6)]
  have "\<not> is_backpressure_active left" using assms(2) by (simp add: assms(6) is_backpressure_active_def)
  then have "consume_cdc E R bad held (left, n) = (held, (left, n), Inl e)" for held
    using assms(4,5) by (simp add: consume_cdc_def route_forward_def)
  with buffered [of "[Row s bad]" "\<lambda>_. new_consumer" n] buffered [of "[]" "\<lambda>_. new_consumer" n]
  show ?thesis by (simp add: run_ingestor_def shutdown_ingestor_def)
qed

text \<open>A row whose time is no time UUID.\<close>

definition timeless_env :: "ref_index net ingest_env" where
  "timeless_env = piped_env\<lparr>env_formats := sample_formats\<lparr>uuid_unix := (\<lambda>u. if u = 1 then None else Some (1, 5000))\<rparr>\<rparr>"

abbreviation (input) timeless_row :: cdc_row where
  "timeless_row \<equiv> piped_row\<lparr>row_time := 1\<rparr>"

lemma timeless_items:
  "\<exists>item. forwarded_item timeless_env (sample_router [''n'']) piped_row t = Inr item"
  "forwarded_item timeless_env (sample_router [''n'']) timeless_row t = Inl (BadTimeUuid ''Not a time-based UUID'')"
  by (simp_all add: forwarded_item_def target_of_def get_target_node_id_def timeless_env_def piped_env_def sample_formats_def
      extract_writetime_from_timeuuid_def node_info_of_def hm_get_def sample_row_def Let_def)

theorem reader_end_drops_buffer_witness:
  "\<exists>svc. length (buffer svc) = 1 \<and>
     run_ingestor timeless_env (sample_router [''n'']) [Row ''s'' piped_row, Row ''s'' timeless_row] CtrlC
       (new_service ''ks.t'', piped_net) = ((svc, piped_net), Inl (RowError (BadTimeUuid ''Not a time-based UUID'')))"
proof -
  obtain item where item: "forwarded_item timeless_env (sample_router [''n'']) piped_row OpUpsert = Inr item"
    using timeless_items(1) by blast
  have "list_all2 (becomes timeless_env (sample_router [''n''])) [Row ''s'' piped_row] [item]"
    using piped_forward item by (simp add: becomes_def)
  moreover have "\<not> is_backpressure_active (new_service ''ks.t'')"
    "length (buffer (new_service ''ks.t'')) + length [item] < batch_limit (new_service ''ks.t'')"
    by (simp_all add: new_service_def is_backpressure_active_def)
  moreover have "determine timeless_row = Forward OpUpsert" by (simp add: determine_def sample_row_def)
  ultimately show ?thesis
    using reader_end_drops_buffer [OF _ _ _ _ timeless_items(2) [of OpUpsert] refl, of "[Row ''s'' piped_row]" "[item]"
        "new_service ''ks.t''" piped_net _ "''s''" CtrlC]
    by (intro exI conjI) (auto simp: new_service_def)
qed

section \<open>\<open>main\<close> of the gateway\<close>

record gateway_args =
  gw_port :: u16
  gw_address :: string
  gw_search_nodes :: "string list"
  gw_test_event_port :: "u16 option"

definition parse_gateway_args :: "build \<Rightarrow> given \<Rightarrow> gateway_args option" where
  "parse_gateway_args b given =
     Option.bind (u16_arg given ''port'' ''8080'') (\<lambda>port.
     Option.bind (list_arg given ''search-nodes'') (\<lambda>nodes.
     Option.bind (debug_arg b parse_u16 given ''test-event-port'') (\<lambda>events.
       Some \<lparr>gw_port = port, gw_address = text_arg given ''address'' ''0.0.0.0'', gw_search_nodes = nodes,
             gw_test_event_port = events\<rparr>)))"

text \<open>\<open>endpoint\<close> is \<open>Endpoint::from_shared\<close> with its lazily connected client; the first address that is none ends \<open>main\<close>.\<close>

fun connect_clients :: "(string \<Rightarrow> string + client) \<Rightarrow> string list \<Rightarrow> string + client list" where
  "connect_clients endpoint [] = Inr []"
| "connect_clients endpoint (addr # addrs) =
     (case endpoint addr of
        Inl err \<Rightarrow> Inl err
      | Inr client \<Rightarrow>
          (case connect_clients endpoint addrs of
             Inl err \<Rightarrow> Inl err
           | Inr clients \<Rightarrow> Inr (client # clients)))"

record app_state =
  clients_of_state :: "client list"

datatype gateway_error = BadGatewayArguments | GatewayNotStarted string

text \<open>\<open>listen\<close> binds the listener.\<close>

definition start_gateway ::
  "build \<Rightarrow> 'a sockets \<Rightarrow> (string \<Rightarrow> string + client) \<Rightarrow> (string \<Rightarrow> string + unit) \<Rightarrow> given \<Rightarrow> gateway_error + app_state" where
  "start_gateway b P endpoint listen given =
     (case parse_gateway_args b given of
        None \<Rightarrow> Inl BadGatewayArguments
      | Some args \<Rightarrow>
          (case test_layer P (gw_test_event_port args) of
             Inl err \<Rightarrow> Inl (GatewayNotStarted err)
           | Inr _ \<Rightarrow>
               (case connect_clients endpoint (client_addresses (gw_search_nodes args)) of
                  Inl err \<Rightarrow> Inl (GatewayNotStarted err)
                | Inr clients \<Rightarrow>
                    (case listen (gw_address args @ '':'' @ show_nat (unat (gw_port args))) of
                       Inl err \<Rightarrow> Inl (GatewayNotStarted err)
                     | Inr _ \<Rightarrow> Inr \<lparr>clients_of_state = clients\<rparr>))))"

section \<open>Routes\<close>

datatype http_body = Health string | SearchAnswer search_response | SearchFailure scatter_fail | Rejection string

type_synonym http_response = "nat \<times> http_body"

record 'q route =
  route_path :: string
  route_method :: string
  route_handler :: "'q \<Rightarrow> http_response"

text \<open>The HTTP library: the parts of a request, the request's body read as JSON or the rejection it is answered with, and
  the dispatch of a request over a table of routes.\<close>

record 'q http =
  request_method :: "'q \<Rightarrow> string"
  request_path :: "'q \<Rightarrow> string"
  json_body :: "'q \<Rightarrow> http_response + search_request"
  dispatch :: "'q route list \<Rightarrow> 'q \<Rightarrow> http_response"

definition routing_laws :: "'q http \<Rightarrow> bool" where
  "routing_laws A =
     (\<forall>routes route q. route \<in> set routes \<and> distinct (map route_path routes) \<and>
        route_path route = request_path A q \<and> route_method route = request_method A q \<longrightarrow>
        dispatch A routes q = route_handler route q)"

definition health_handler :: "'q \<Rightarrow> http_response" where
  "health_handler q = (200, Health ''OK'')"

definition search_route :: "'q http \<Rightarrow> app_state \<Rightarrow> 'q \<Rightarrow> http_response" where
  "search_route A state q =
     (case json_body A q of
        Inl rejection \<Rightarrow> rejection
      | Inr payload \<Rightarrow>
          (case search_handler (clients_of_state state) payload of
             (status, Inr response) \<Rightarrow> (status, SearchAnswer response)
           | (status, Inl e) \<Rightarrow> (status, SearchFailure e)))"

definition create_router :: "'q http \<Rightarrow> app_state \<Rightarrow> 'q route list" where
  "create_router A state =
     [\<lparr>route_path = ''/api/health'', route_method = ''GET'', route_handler = health_handler\<rparr>,
      \<lparr>route_path = ''/api/v1/search'', route_method = ''POST'', route_handler = search_route A state\<rparr>]"

lemma post_search:
  assumes "routing_laws A" "request_path A q = ''/api/v1/search''" "request_method A q = ''POST''" "json_body A q = Inr req"
  shows "dispatch A (create_router A state) q =
    (case search_handler (clients_of_state state) req of
       (status, Inr response) \<Rightarrow> (status, SearchAnswer response)
     | (status, Inl e) \<Rightarrow> (status, SearchFailure e))"
proof -
  let ?route = "\<lparr>route_path = ''/api/v1/search'', route_method = ''POST'', route_handler = search_route A state\<rparr>"
  have "?route \<in> set (create_router A state)" "distinct (map route_path (create_router A state))"
    by (simp_all add: create_router_def)
  with assms(1-3) have "dispatch A (create_router A state) q = route_handler ?route q"
    unfolding routing_laws_def by (metis route.select_convs(1,2))
  then show ?thesis by (simp add: search_route_def assms(4))
qed

lemma search_answer:
  assumes "routing_laws A" "request_path A q = ''/api/v1/search''" "request_method A q = ''POST''" "json_body A q = Inr req"
    and "dispatch A (create_router A state) q = (status, SearchAnswer resp)"
  shows "status = 200 \<and> search_handler (clients_of_state state) req = (200, Inr resp)"
  using assms(5) unfolding post_search [OF assms(1-4)]
  by (auto simp: search_handler_def split: prod.splits sum.splits)

text \<open>The clients of a started gateway are those of its sorted nodes.\<close>

lemma connect_clients_Inr:
  "connect_clients endpoint addrs = Inr clients \<longleftrightarrow> map endpoint addrs = map Inr clients"
proof (induction addrs arbitrary: clients)
  case (Cons addr addrs)
  show ?case by (cases clients) (auto simp: Cons.IH [symmetric] split: sum.splits)
qed auto

lemma gateway_clients:
  assumes "start_gateway b P endpoint listen given = Inr state" "parse_gateway_args b given = Some args"
    and "target \<in> set (gw_search_nodes args)"
  shows "\<exists>client \<in> set (clients_of_state state). endpoint (node_address target) = Inr client"
proof -
  have "map endpoint (client_addresses (gw_search_nodes args)) = map Inr (clients_of_state state)"
    using assms(1,2) by (auto simp: start_gateway_def connect_clients_Inr [symmetric] split: sum.splits)
  moreover have "node_address target \<in> set (client_addresses (gw_search_nodes args))"
    using assms(3) by (simp add: client_addresses_def)
  ultimately show ?thesis by (metis (no_types, lifting) image_iff list.set_map)
qed

section \<open>Ingestor, nodes and gateway together\<close>

lemma started_router_fields:
  assumes "start_ingestor key_info_of search_nodes table_arg = Inr (svc, R)"
  obtains keyspace table key_info where "parse_table_name table_arg = Some (keyspace, table)"
    "key_info_of keyspace table = Inr key_info" "R = new_router (node_info_of search_nodes) keyspace table key_info"
    "svc = new_service (keyspace @ ''.'' @ table)"
  using assms that by (auto simp: start_ingestor_def Let_def split: option.splits sum.splits)

lemma target_is_configured:
  assumes "start_ingestor key_info_of search_nodes table_arg = Inr (svc, R)" "target_of F R row = Inr target"
  shows "target \<in> set search_nodes"
proof -
  have info: "node_info R = node_info_of search_nodes"
    using assms(1) by (elim started_router_fields) (simp add: new_router_def)
  then obtain i where "hm_get (node_info_of search_nodes) i = Some target"
    using assms(2) by (auto simp: target_of_def split: option.splits)
  then have "target \<in> set (sort search_nodes)"
    by (auto simp: node_info_of_def hm_get_enumerate split: if_splits) (metis length_sort nth_mem set_sort)
  then show ?thesis by simp
qed

text \<open>C25: The gateway asks the node where a row's writes are. An ingestor sends every row of a partition to one of its
  configured nodes, the same for every ingestor of the table that is given these nodes, in whatever order; a gateway given
  the same nodes has a client for it, and when it answers 200 to a search under consistency ALL that client has
  answered.\<close>

theorem gateway_asks_where_rows_go:
  assumes "start_ingestor key_info_of search_nodes table_arg = Inr (svc, R)"
    and "start_ingestor key_info_of search_nodes' table_arg = Inr (svc', R')"
    and "mset search_nodes' = mset search_nodes" "search_nodes \<noteq> []"
    and "\<And>c. c \<in> set (pk_columns R) \<Longrightarrow> get_value row c = get_value row' c"
    and "parse_gateway_args b given = Some args" "start_gateway b P endpoint listen given = Inr state"
    and "set (gw_search_nodes args) = set search_nodes" "routing_laws A"
  shows "\<exists>target \<in> set search_nodes. target_of F R row = Inr target \<and> target_of F R' row' = Inr target \<and>
    (\<exists>client \<in> set (clients_of_state state). endpoint (node_address target) = Inr client \<and>
      (\<forall>q req resp. request_path A q = ''/api/v1/search'' \<and> request_method A q = ''POST'' \<and> json_body A q = Inr req \<and>
         req_consistency req = 2 \<and> dispatch A (create_router A state) q = (200, SearchAnswer resp) \<longrightarrow>
         (\<exists>a. client (node_request req) = Inr a)))"
proof -
  have "node_info R = node_info_of search_nodes" "node_info R' = node_info_of search_nodes'" "pk_columns R' = pk_columns R"
    using assms(1,2) by (auto simp: new_router_def elim!: started_router_fields)
  from partition_has_one_node [OF this(1,2) assms(3,4) this(3) assms(5), of F] obtain target where
    target: "target \<in> set search_nodes" "target_of F R row = Inr target" "target_of F R' row' = Inr target"
    by blast
  then obtain client where client: "client \<in> set (clients_of_state state)" "endpoint (node_address target) = Inr client"
    using gateway_clients [OF assms(7,6)] assms(8) by metis
  have "\<exists>a. client (node_request req) = Inr a"
    if "request_path A q = ''/api/v1/search''" "request_method A q = ''POST''" "json_body A q = Inr req"
      "req_consistency req = 2" "dispatch A (create_router A state) q = (200, SearchAnswer resp)" for q req resp
  proof -
    have "scatter_gather (clients_of_state state) req = Inr resp"
      using search_answer [OF assms(9) that(1-3,5)] by (simp add: search_handler_def split: sum.splits)
    then show ?thesis by (rule all_nodes_answer [OF client(1) that(4)])
  qed
  with target client show ?thesis by blast
qed

text \<open>A gateway of the nodes \<open>a\<close> and \<open>b\<close>, and a library that takes the first route that fits.\<close>

definition ref_http :: "search_request http" where
  "ref_http =
     \<lparr>request_method = (\<lambda>q. ''POST''), request_path = (\<lambda>q. ''/api/v1/search''), json_body = Inr,
      dispatch = (\<lambda>routes q.
        case find (\<lambda>route. route_path route = ''/api/v1/search'' \<and> route_method route = ''POST'') routes of
          Some route \<Rightarrow> route_handler route q | None \<Rightarrow> (404, Rejection ''no route''))\<rparr>"

lemma find_route:
  assumes "route \<in> set routes" "distinct (map route_path routes)" "route_path route = p" "route_method route = m"
  shows "find (\<lambda>route. route_path route = p \<and> route_method route = m) routes = Some route"
  using assms by (induction routes) (auto simp: rev_image_eqI)

lemma ref_routing_laws: "routing_laws ref_http"
  by (clarsimp simp: routing_laws_def ref_http_def) (drule (3) find_route, simp)

abbreviation (input) gateway_given :: "string \<Rightarrow> given" where
  "gateway_given ns \<equiv> [''search-nodes'' \<mapsto> ns]"

lemma sample_gateway_args:
  "parse_gateway_args Release (gateway_given ns) =
     Some \<lparr>gw_port = 8080, gw_address = ''0.0.0.0'', gw_search_nodes = str_split (CHR '','') ns, gw_test_event_port = None\<rparr>"
  by (simp add: parse_gateway_args_def u16_arg_def text_arg_def list_arg_def debug_arg_def parse_u16_def
      parse_unsigned_def parse_nat_def digit_val_def)

lemma sample_gateway:
  "start_gateway Release ref_sockets (\<lambda>a. Inr (client a)) (\<lambda>_. Inr ()) (gateway_given ns) =
     Inr \<lparr>clients_of_state = map client (client_addresses (str_split (CHR '','') ns))\<rparr>"
proof -
  have "connect_clients (\<lambda>a. Inr (client a)) addrs = Inr (map client addrs)" for addrs
    by (simp add: connect_clients_Inr)
  then show ?thesis by (simp add: start_gateway_def sample_gateway_args test_layer_def)
qed

theorem gateway_asks_where_rows_go_witness:
  "\<exists>target \<in> {''a'', ''b''}.
     target_of sample_formats (sample_router [''b'', ''a'']) (sample_row RowInsert ''ann'' 3) = Inr target \<and>
     target_of sample_formats (sample_router [''a'', ''b'']) (sample_row RowDelete ''ann'' 7) = Inr target \<and>
     start_gateway Release ref_sockets (\<lambda>a. Inr (\<lambda>r. Inl (a, ''down''))) (\<lambda>_. Inr ()) (gateway_given ''b,a'') =
       Inr \<lparr>clients_of_state = map (\<lambda>a r. Inl (a, ''down'')) (client_addresses [''b'', ''a''])\<rparr>"
proof -
  have start: "start_ingestor piped_keys ns ''ks.t'' = Inr (new_service ''ks.t'', sample_router ns)" for ns
    by (simp add: start_ingestor_def parse_table_name_def piped_keys_def sample_router_def Let_def)
  have split: "str_split (CHR '','') ''b,a'' = [''b'', ''a'']" by simp
  note gw = sample_gateway [of "\<lambda>a r. Inl (a, ''down'')" "''b,a''"]
  have "get_value (sample_row RowInsert ''ann'' 3) c = get_value (sample_row RowDelete ''ann'' 7) c"
    if "c \<in> set (pk_columns (sample_router [''b'', ''a'']))" for c
    using that by (simp add: sample_row_def)
  from gateway_asks_where_rows_go [OF start [of "[''b'', ''a'']"] start [of "[''a'', ''b'']"] _ _ this sample_gateway_args gw _
      ref_routing_laws, where F = sample_formats]
  show ?thesis using gw by (auto simp: split)
qed



end
