(* ===== verification/Deletion.thy ===== *)
theory Deletion
  imports Engine_Spec Pipeline
begin

text \<open>
  What deletes achieve. While the reader is up to date, what the next commit publishes is what lookups
  find (\<open>current\<close>), so a delete that is skipped as outdated leaves only a document at least as new, and one that is
  applied leaves none; \<open>withdrawn\<close> says so, for partition deletes too. A range delete asks the node for the ids of
  a partition first; with the reader up to date that list misses no document of the partition.
\<close>

section \<open>Readers that are up to date\<close>

definition reader_current :: "('w, 'd) index_view \<Rightarrow> 'w engine \<Rightarrow> bool" where
  "reader_current V e = (visible V (writer e) = committed V (writer e))"

definition current :: "store \<Rightarrow> bool" where
  "current st =
     (\<forall>i d. next_docs st i = Some d \<longrightarrow>
        (\<exists>d'. (cached st i = Some d' \<or> cached st i = None \<and> shown st i = Some d') \<and>
           doc_writetime d' = doc_writetime d \<and> doc_partition_key d' = doc_partition_key d))"

lemma as_read_unique: "stored_as S T x d \<Longrightarrow> stored_as S T x d' \<Longrightarrow> as_read T d = as_read T d'"
proof -
  assume st: "stored_as S T x d" "stored_as S T x d'"
  then have "doc_id d = doc_id d'" by (simp add: stored_as_def stores_def)
  with stored_doc_back [OF st(1)] stored_doc_back [OF st(2)] show ?thesis by (simp add: as_read_def)
qed

lemma engine_current:
  assumes "engine_inv S T V e" "reader_current V e"
  shows "current (store_of S T V e)"
  unfolding current_def
proof (intro allI impI)
  fix i d
  have sound: "sound_docs S T (pending V (writer e))" "sound_docs S T (visible V (writer e))"
    using assms(1) by (simp_all add: inv_defs)
  assume "next_docs (store_of S T V e) i = Some d"
  then obtain x d0 where x: "x \<in> set (pending V (writer e))" "stored_as S T x d0" "doc_id d0 = i" "d = as_read T d0"
    by (auto simp: store_of_def docs_of_Some [OF sound(1)])
  then have has: "has_term T FieldId i x" by (simp add: stored_as_terms)
  show "\<exists>d'. (cached (store_of S T V e) i = Some d' \<or>
      cached (store_of S T V e) i = None \<and> shown (store_of S T V e) i = Some d') \<and>
    doc_writetime d' = doc_writetime d \<and> doc_partition_key d' = doc_partition_key d"
  proof (cases "hm_get (uncommitted_docs e) i")
    case (Some c)
    then have "stored_as S T x c" using assms(1) x(1) has unfolding inv_defs by blast
    then have "as_read T c = d" using as_read_unique x(2,4) by metis
    then have "doc_writetime c = doc_writetime d" "doc_partition_key c = doc_partition_key d" by auto
    with Some show ?thesis by (simp add: store_of_def)
  next
    case None
    have "j = i" if "has_term T FieldId j x" for j using that has by (simp add: has_term_def)
    then have "x \<in> set (committed V (writer e))"
      using assms(1) x(1) None unfolding engine_inv_def by fastforce
    then have "x \<in> set (visible V (writer e))" using assms(2) by (simp add: reader_current_def)
    then have "docs_of S T (visible V (writer e)) i = Some d"
      unfolding docs_of_Some [OF sound(2)] using x(2-4) by blast
    with None show ?thesis by (simp add: store_of_def)
  qed
qed

lemma current_contract:
  assumes "serde_wf S" "writer_laws T V" "storage_laws S T"
  shows "batch_contract S T (\<lambda>_. True) (\<lambda>_ e. engine_inv S T V e \<and> reader_current V e) (\<lambda>_ _. True)"
proof (rule contract_of_ops)
  fix op e e' r
  assume "engine_inv S T V e \<and> reader_current V e" "process_op S T op e = (e', r)"
  then show "(engine_inv S T V e' \<and> reader_current V e') \<and> (\<forall>op'. True \<longrightarrow> True) \<and> ((\<nexists>err. r = Failed err) \<longrightarrow> True)"
    using engine_inv_op [OF assms] process_op_views [OF assms(2)] by (auto simp: reader_current_def)
qed

section \<open>Deletes\<close>

definition is_delete :: "index_operation \<Rightarrow> bool" where
  "is_delete op = (op_type_of op = OpDelete \<or> op_type_of op = OpPartitionDelete)"

definition withdrawn :: "store \<Rightarrow> index_operation \<Rightarrow> bool" where
  "withdrawn st op =
     (if op_type_of op = OpPartitionDelete
      then \<forall>i d. next_docs st i = Some d \<longrightarrow> doc_partition_key d \<noteq> op_key op
      else \<forall>d. next_docs st (op_id op) = Some d \<longrightarrow> op_writetime op \<le> doc_writetime d)"

lemma withdrawn_mono: "next_docs st' \<subseteq>\<^sub>m next_docs st \<Longrightarrow> withdrawn st op \<Longrightarrow> withdrawn st' op"
  by (auto simp: withdrawn_def map_le_def dom_def split: if_splits)

lemma delete_op_withdraws:
  assumes "current st" "is_delete op" "store_op S T op st = (st', ok)"
  shows "next_docs st' \<subseteq>\<^sub>m next_docs st \<and> withdrawn st' op \<and>
    (op_type_of op = OpDelete \<longrightarrow> (\<forall>i d. next_docs st i = Some d \<longrightarrow>
       (i \<noteq> op_id op \<or> op_writetime op \<le> doc_writetime d) \<longrightarrow> next_docs st' i = Some d))"
proof (cases "op_type_of op = OpDelete")
  case True
  have age: "outdated st op = (op_writetime op \<le> doc_writetime d)" if "next_docs st (op_id op) = Some d" for d
    using assms(1) that by (fastforce simp: outdated_def found_def current_def)
  show ?thesis
  proof (cases "outdated st op")
    case True
    then show ?thesis using age \<open>op_type_of op = OpDelete\<close> assms(3) by (simp add: store_op_def withdrawn_def)
  next
    case False
    then show ?thesis using age using \<open>op_type_of op = OpDelete\<close> assms(3)
      by (auto simp: store_op_def withdrawn_def map_le_def dom_def split: if_splits)
  qed
next
  case False
  then have "op_type_of op = OpPartitionDelete" using assms(2) by (simp add: is_delete_def)
  then show ?thesis
    using assms(3) by (auto simp: store_op_def withdrawn_def keep_if_def map_le_def split: option.splits if_splits)
qed

lemma processed_delete:
  assumes "serde_wf S" "writer_laws T V" "storage_laws S T" "reader_laws T V"
    and "engine_inv S T V e" "reader_current V e" "is_delete op" "process_op S T op e = (e', r)"
  shows "engine_inv S T V e' \<and> reader_current V e' \<and> next_docs (store_of S T V e') \<subseteq>\<^sub>m next_docs (store_of S T V e) \<and>
    withdrawn (store_of S T V e') op \<and>
    (op_type_of op = OpDelete \<longrightarrow> (\<forall>i d. next_docs (store_of S T V e) i = Some d \<longrightarrow>
       (i \<noteq> op_id op \<or> op_writetime op \<le> doc_writetime d) \<longrightarrow> next_docs (store_of S T V e') i = Some d))"
proof -
  have "op_type_of op \<noteq> OpUpsert" using assms(7) by (auto simp: is_delete_def)
  then have "\<nexists>err. r = Failed err" using process_op_failed assms(8) by blast
  then have "store_op S T op (store_of S T V e) = (store_of S T V e', r = Processed)"
    by (rule process_op_is_store_op [OF assms(1-5,8)])
  from delete_op_withdraws [OF engine_current [OF assms(5,6)] assms(7) this]
  show ?thesis
    using engine_inv_op [OF assms(1-3,5,8)] process_op_views [OF assms(2,8)] assms(6) by (simp add: reader_current_def)
qed

text \<open>Batches of deletes: they leave of \<open>m\<close> (per node) at least what \<open>keep\<close> says no delete of theirs is newer than.\<close>

definition leaves_of :: "(string \<Rightarrow> doc \<Rightarrow> bool) \<Rightarrow> (string \<Rightarrow> doc option) \<Rightarrow> store \<Rightarrow> bool" where
  "leaves_of keep m st =
     (next_docs st \<subseteq>\<^sub>m m \<and> (\<forall>i d. m i = Some d \<longrightarrow> keep i d \<longrightarrow> next_docs st i = Some d))"

lemma deletes_contract:
  assumes laws: "serde_wf S" "writer_laws T V" "storage_laws S T" "reader_laws T V"
    and p: "\<And>op. p op \<Longrightarrow> is_delete op"
    and keep: "\<And>op i d. p op \<Longrightarrow> keep i d \<Longrightarrow>
      op_type_of op = OpDelete \<and> (i \<noteq> op_id op \<or> op_writetime op \<le> doc_writetime d)"
  shows "batch_contract S T p
    (\<lambda>a e. engine_inv S T V e \<and> reader_current V e \<and> leaves_of keep (m a) (store_of S T V e))
    (\<lambda>e. withdrawn (store_of S T V e))"
proof (rule contract_of_ops)
  fix a op e e' r
  assume op: "p op" "process_op S T op e = (e', r)"
    and inv: "engine_inv S T V e \<and> reader_current V e \<and> leaves_of keep (m a) (store_of S T V e)"
  then have run: "engine_inv S T V e'" "reader_current V e'" "withdrawn (store_of S T V e') op"
    "next_docs (store_of S T V e') \<subseteq>\<^sub>m next_docs (store_of S T V e)"
    and kept: "op_type_of op = OpDelete \<longrightarrow> (\<forall>i d. next_docs (store_of S T V e) i = Some d \<longrightarrow>
       (i \<noteq> op_id op \<or> op_writetime op \<le> doc_writetime d) \<longrightarrow> next_docs (store_of S T V e') i = Some d)"
    using processed_delete [OF laws _ _ p op(2)] by blast+
  have "next_docs (store_of S T V e') \<subseteq>\<^sub>m m a" using run(4) inv by (auto simp: leaves_of_def intro: map_le_trans)
  moreover have "next_docs (store_of S T V e') i = Some d" if "m a i = Some d" "keep i d" for i d
    using inv that kept keep [OF op(1) that(2)] by (simp add: leaves_of_def)
  ultimately have "leaves_of keep (m a) (store_of S T V e')" by (simp add: leaves_of_def)
  then show "(engine_inv S T V e' \<and> reader_current V e' \<and> leaves_of keep (m a) (store_of S T V e')) \<and>
      (\<forall>op'. withdrawn (store_of S T V e) op' \<longrightarrow> withdrawn (store_of S T V e') op') \<and>
      ((\<nexists>err. r = Failed err) \<longrightarrow> withdrawn (store_of S T V e') op)"
    using run withdrawn_mono by blast
qed

section \<open>Streams of deletes\<close>

definition deletes_only :: "cdc_row list \<Rightarrow> bool" where
  "deletes_only rows = list_all (\<lambda>row. determine row \<in> {Forward OpDelete, Forward OpPartitionDelete, Skip}) rows"

lemma deletes_forward_deletes: "deletes_only rows \<Longrightarrow> list_all (forwards E R is_delete) rows"
  using forwarded_fields [of E R _ OpDelete] forwarded_fields [of E R _ OpPartitionDelete]
  by (auto simp: deletes_only_def forwards_def list_all_iff is_delete_def)

text \<open>What a consumed and flushed stream of deletes leaves on the nodes.\<close>

lemma consumed_deletes_withdraw:
  assumes "on_nodes S T V E" "\<forall>a. engine_inv S T V (nodes n a) \<and> reader_current V (nodes n a)"
    and "deletes_only (rows_of events)" "buffer svc = []"
    and "ingest E R events helds (svc, n) = (helds', st1, Inr ())" "flush_service E st1 = ((svc', n'), Inr ())"
  shows "\<forall>a. engine_inv S T V (nodes n' a)"
    and "row \<in> set (rows_of events) \<Longrightarrow> determine row = Forward t \<Longrightarrow>
      \<exists>item. forwarded_item E R row t = Inr item \<and>
        withdrawn (store_of S T V (nodes n' (node_address (target_node item)))) (operation_of item)"
proof -
  have laws: "serde_wf S" "writer_laws T V" "storage_laws S T" "reader_laws T V"
    using assms(1) by (simp_all add: on_nodes_def)
  have contract: "batch_contract S T is_delete
      (\<lambda>a e. engine_inv S T V e \<and> reader_current V e \<and>
        leaves_of (\<lambda>_ _. False) (next_docs (store_of S T V (nodes n a))) (store_of S T V e))
      (\<lambda>e. withdrawn (store_of S T V e))"
    by (rule deletes_contract [OF laws, where m = "\<lambda>a. next_docs (store_of S T V (nodes n a))"]) simp_all
  note flushed = ingested_and_flushed [OF assms(1) contract deletes_forward_deletes [OF assms(3)] _ assms(4-6)]
  have "\<forall>a. engine_inv S T V (nodes n a) \<and> reader_current V (nodes n a) \<and>
      leaves_of (\<lambda>_ _. False) (next_docs (store_of S T V (nodes n a))) (store_of S T V (nodes n a))"
    using assms(2) by (simp add: leaves_of_def)
  note flushed = flushed [OF this]
  show "\<forall>a. engine_inv S T V (nodes n' a)" using flushed(2) by blast
  show "row \<in> set (rows_of events) \<Longrightarrow> determine row = Forward t \<Longrightarrow>
      \<exists>item. forwarded_item E R row t = Inr item \<and>
        withdrawn (store_of S T V (nodes n' (node_address (target_node item)))) (operation_of item)"
    by (rule flushed(3))
qed

section \<open>Range deletes\<close>

lemma flush_until_ok_current:
  assumes "on_nodes S T V E" "\<forall>a. engine_inv S T V (nodes (snd st) a) \<and> reader_current V (nodes (snd st) a)"
  shows "\<forall>a. engine_inv S T V (nodes (snd (flush_until_ok E k st)) a) \<and>
    reader_current V (nodes (snd (flush_until_ok E k st)) a)"
  using assms(2)
proof (induction k arbitrary: st)
  case (Suc k)
  have laws: "serde_wf S" "writer_laws T V" "storage_laws S T" and iter: "some_order (env_iter E)"
    and X: "env_transport E = net_transport S T"
    using assms(1) by (simp_all add: on_nodes_def)
  obtain svc n where st: "st = (svc, n)" by (cases st)
  obtain svc' n' res where fl: "flush (env_codec E) (env_iter E) (net_transport S T) svc n = (svc', n', res)"
    by (cases "flush (env_codec E) (env_iter E) (net_transport S T) svc n")
  have "\<forall>a. engine_inv S T V (nodes n' a) \<and> reader_current V (nodes n' a)"
    using flush_contract(1) [OF current_contract [OF laws] iter _ _ fl] Suc.prems by (simp add: st)
  then show ?case
    using Suc.IH [of "(svc', n')"] fl by (cases res) (simp_all add: st flush_service_def X)
qed simp

lemma flush_until_ok_empties: "0 < k \<Longrightarrow> buffer (fst (flush_until_ok E k st)) = []"
  using flush_until_ok_state [OF prod.collapse [symmetric]] by blast

text \<open>While the reader is up to date, the listing of a partition misses none of its documents.\<close>

lemma listing_complete:
  assumes "reader_laws T V" "engine_inv S T V e" "reader_current V e"
    and "next_docs (store_of S T V e) i = Some d"
  shows "i \<in> set (list_document_ids_by_partition_key T e (doc_partition_key d))"
  using engine_current [OF assms(2,3)] assms(4) unfolding listing_is_store [OF assms(1,2)] current_def by fastforce

text \<open>The ids a range covers.\<close>

definition in_range :: "formats \<Rightarrow> router \<Rightarrow> pending_range_start \<Rightarrow> cdc_row \<Rightarrow> string \<Rightarrow> bool" where
  "in_range F R start row i =
     (filter_doc_ids_by_ck_range F R [i] start (ck_bounds F R row) (row_operation row = RowRangeDelInclRight) \<noteq> [])"

lemma in_range_filter:
  "set (filter_doc_ids_by_ck_range F R ids start (ck_bounds F R row) (row_operation row = RowRangeDelInclRight)) =
   {i \<in> set ids. in_range F R start row i}"
  by (auto simp: in_range_def filter_doc_ids_by_ck_range_def split: if_splits)

lemma range_delete_op [simp]:
  "op_id (operation_of (range_delete_item start i)) = i"
  "op_writetime (operation_of (range_delete_item start i)) = start_writetime start"
  "op_type_of (operation_of (range_delete_item start i)) = OpDelete"
  "target_node (range_delete_item start i) = start_target_node start"
  by (simp_all add: range_delete_item_def operation_of_def op_type_of_def del: op_type_as_i32.simps)

text \<open>The end row of a range, answered by the node itself, then a flush.\<close>

lemma committed_range:
  assumes "on_nodes S T V E"
    and lists: "env_list_ids E = (\<lambda>a pk n. (n, Inr (list_document_ids_by_partition_key T (nodes n a) pk)))"
    and "\<forall>a. engine_inv S T V (nodes n a) \<and> reader_current V (nodes n a)"
    and run: "commit_range_delete E R start row (svc, n) = (st1, Inr ())" "flush_service E st1 = ((svc', n'), Inr ())"
  defines "n1 \<equiv> snd (flush_until_ok E 3 (svc, n))"
    and "a \<equiv> node_address (start_target_node start)"
    and "gone \<equiv> \<lambda>i. i \<in> set (list_document_ids_by_partition_key T
        (nodes (snd (flush_until_ok E 3 (svc, n))) (node_address (start_target_node start))) (start_partition_key start)) \<and>
        in_range (env_formats E) R start row i"
  shows "engine_inv S T V (nodes n' a) \<and>
    next_docs (store_of S T V (nodes n' a)) i =
      (case next_docs (store_of S T V (nodes n1 a)) i of
         None \<Rightarrow> None
       | Some d \<Rightarrow> if gone i \<and> doc_writetime d < start_writetime start then None else Some d)"
proof -
  have laws: "serde_wf S" "writer_laws T V" "storage_laws S T" "reader_laws T V"
    using assms(1) by (simp_all add: on_nodes_def)
  let ?p = "\<lambda>op. op_type_of op = OpDelete \<and> gone (op_id op) \<and> op_writetime op = start_writetime start"
  let ?m = "\<lambda>b. next_docs (store_of S T V (nodes n1 b))"
  let ?I = "\<lambda>b e. engine_inv S T V e \<and> reader_current V e \<and>
      leaves_of (\<lambda>i d. \<not> gone i \<or> start_writetime start \<le> doc_writetime d) (?m b) (store_of S T V e)"
  let ?H = "\<lambda>e. withdrawn (store_of S T V e)"
  have contract: "batch_contract S T ?p ?I ?H"
    by (rule deletes_contract [OF laws]) (auto simp: is_delete_def)
  let ?ids = "list_document_ids_by_partition_key T (nodes n1 a) (start_partition_key start)"
  let ?items = "map (range_delete_item start) (filter_doc_ids_by_ck_range (env_formats E) R ?ids start
      (ck_bounds (env_formats E) R row) (row_operation row = RowRangeDelInclRight))"
  let ?svc1 = "fst (flush_until_ok E 3 (svc, n))"
  have items: "set ?items = range_delete_item start ` {i. gone i}"
    by (auto simp: in_range_filter gone_def a_def n1_def)
  have start: "tracked ?p ?I ?H (env_codec E) [] (?svc1, n1)"
    using flush_until_ok_current [OF assms(1), of "(svc, n)" 3] assms(3) flush_until_ok_empties [of 3 E "(svc, n)"]
    by (simp add: tracked_def leaves_of_def n1_def)
  have "enqueue_all E ?items (?svc1, n1) = (st1, Inr ())"
    using run(1) by (simp add: commit_range_delete_def Let_def lists n1_def a_def)
  from add_all_tracked [OF assms(1) contract start _ this] items
  have kept: "tracked ?p ?I ?H (env_codec E) ?items st1" by (simp only: append_Nil2) auto
  obtain svc2 n2 where st1: "st1 = (svc2, n2)" by (cases st1)
  have "flush (env_codec E) (env_iter E) (env_transport E) svc2 n2 = (svc', n', Inr ())"
    using run(2) by (auto simp: st1 flush_service_def split: prod.splits)
  from flush_tracked [OF assms(1) contract kept [unfolded st1] this]
  have final: "tracked ?p ?I ?H (env_codec E) ?items (svc', n')" "buffer svc' = []" by simp_all
  then have inv: "?I a (nodes n' a)" by (simp add: tracked_def)
  have old: "start_writetime start \<le> doc_writetime d"
    if "gone i" "next_docs (store_of S T V (nodes n' a)) i = Some d" for d
  proof -
    have "range_delete_item start i \<in> set ?items" using that(1) items by blast
    then have "withdrawn (store_of S T V (nodes n' a)) (operation_of (range_delete_item start i))"
      using final by (auto simp: tracked_def a_def)
    then show ?thesis using that(2) by (simp add: withdrawn_def)
  qed
  show ?thesis
  proof (cases "?m a i")
    case None
    then have "next_docs (store_of S T V (nodes n' a)) i = None"
      using inv by (force simp: leaves_of_def map_le_def)
    then show ?thesis using inv None by simp
  next
    case (Some d)
    let ?after = "next_docs (store_of S T V (nodes n' a))"
    have below: "?after \<subseteq>\<^sub>m ?m a" and stays: "\<not> gone i \<or> start_writetime start \<le> doc_writetime d \<Longrightarrow> ?after i = Some d"
      using inv Some by (simp_all add: leaves_of_def)
    show ?thesis
    proof (cases "gone i \<and> doc_writetime d < start_writetime start")
      case True
      have "?after i = None"
      proof (rule ccontr)
        assume "?after i \<noteq> None"
        then obtain d' where d': "?after i = Some d'" by blast
        then have "d' = d" using below Some by (force simp: map_le_def)
        then show False using old [OF _ d'] True leD by blast
      qed
      then show ?thesis using inv Some True by simp
    next
      case False
      then show ?thesis using inv Some stays by (simp add: not_less)
    qed
  qed
qed

section \<open>Properties\<close>

text \<open>A consumed delete is published. If the nodes' readers are up to date, deletes and partition
  deletes of any streams were consumed without an error, whatever rounds of the ticker came between them, and the flush
  after them succeeds, then after its node's next commit and
  reload, for each of these rows: a deleted row's document is gone unless it was written at the row's time or
  later, and of a deleted partition no document is left; calls may have been refused, lost and retried on the
  way.\<close>

theorem consumed_deletes_are_published:
  assumes "on_nodes S T V E" "\<forall>a. engine_inv S T V (nodes n a) \<and> reader_current V (nodes n a)"
    and "deletes_only (rows_of events)" "buffer svc = []"
    and "ingest E R events helds (svc, n) = (helds', st1, Inr ())"
    and "flush_service E st1 = ((svc', n'), Inr ())"
    and "row \<in> set (rows_of events)" "determine row \<noteq> Skip" "target_of (env_formats E) R row = Inr target"
    and "commit_ok T (writer (nodes n' (node_address target)))" "\<not> poisoned (nodes n' (node_address target))"
  defines "e \<equiv> reload_reader T (commit_tick T False (nodes n' (node_address target)))"
  shows "\<exists>w. extract_writetime_from_timeuuid (env_formats E) (row_time row) = Inr w \<and>
    (\<forall>x \<in> set (visible V (writer e)). \<forall>d. stored_as S T x d \<longrightarrow>
       (determine row = Forward OpDelete \<longrightarrow> doc_id d = joined_key (env_formats E) row (full_pk_columns R) \<longrightarrow>
          w \<le> doc_writetime d) \<and>
       (determine row = Forward OpPartitionDelete \<longrightarrow>
          doc_partition_key d \<noteq> joined_key (env_formats E) row (pk_columns R)))"
proof -
  have laws: "writer_laws T V" using assms(1) by (simp add: on_nodes_def)
  obtain t where t: "determine row = Forward t" "t = OpDelete \<or> t = OpPartitionDelete"
    using assms(3,7,8) by (auto simp: deletes_only_def list_all_iff)
  note left = consumed_deletes_withdraw [OF assms(1-6)]
  obtain item where item: "forwarded_item E R row t = Inr item"
    "withdrawn (store_of S T V (nodes n' (node_address (target_node item)))) (operation_of item)"
    using left(2) [OF assms(7) t(1)] by blast
  note fields = forwarded_fields [OF item(1)]
  have at: "target_node item = target" using fields assms(9) by simp
  have ops: "op_id (operation_of item) = joined_key (env_formats E) row (full_pk_columns R)"
    "op_key (operation_of item) = joined_key (env_formats E) row (pk_columns R)"
    "op_writetime (operation_of item) = bi_writetime item" "op_type_of (operation_of item) = t"
    using fields by (auto simp: operation_of_def op_key_def)
  have inv: "engine_inv S T V (nodes n' (node_address target))" using left(1) by blast
  show ?thesis
  proof (intro exI conjI ballI allI impI)
    show "extract_writetime_from_timeuuid (env_formats E) (row_time row) = Inr (bi_writetime item)"
      using fields by blast
    fix x d
    assume "x \<in> set (visible V (writer e))" "stored_as S T x d"
    then have held: "next_docs (store_of S T V (nodes n' (node_address target))) (doc_id d) = Some (as_read T d)"
      unfolding e_def by (rule published_doc [OF laws inv assms(10,11)])
    show "bi_writetime item \<le> doc_writetime d"
      if "determine row = Forward OpDelete" "doc_id d = joined_key (env_formats E) row (full_pk_columns R)"
      using item(2) t(1) that held by (simp add: at withdrawn_def ops)
    show "doc_partition_key d \<noteq> joined_key (env_formats E) row (pk_columns R)"
      if "determine row = Forward OpPartitionDelete"
    proof -
      have "\<forall>i d'. next_docs (store_of S T V (nodes n' (node_address target))) i = Some d' \<longrightarrow>
          doc_partition_key d' \<noteq> joined_key (env_formats E) row (pk_columns R)"
        using item(2) t(1) that by (simp add: at withdrawn_def ops)
      with held have "doc_partition_key (as_read T d) \<noteq> joined_key (env_formats E) row (pk_columns R)" by blast
      then show ?thesis by simp
    qed
  qed
qed


section \<open>Samples\<close>

definition ann_doc :: "string \<Rightarrow> index_operation" where
  "ann_doc i = (sample_op OpUpsert i 5 (JObject []))\<lparr>op_partition_key := Some ''ann''\<rparr>"

definition ann_engine :: "ref_index engine" where
  "ann_engine = fst (process_batch ref_serde ref_tantivy [ann_doc ''ann:3'', ann_doc ''ann:7''] ref_engine)"

lemma ann_engine_ok: "engine_inv ref_serde ref_tantivy ref_view ann_engine \<and> reader_current ref_view ann_engine"
  using ref_batch_inv [OF ref_engine_inv]
  by (simp add: ann_engine_def reader_current_def) (simp add: ann_doc_def engine_eval ref_eval)

lemma ann_docs: "\<exists>d. next_docs (store_of ref_serde ref_tantivy ref_view ann_engine) ''ann:7'' = Some d \<and>
    doc_partition_key d = ''ann'' \<and> doc_writetime d = 5"
  by (simp add: ann_engine_def ann_doc_def store_of_def docs_of_def stored_doc_def has_term_def engine_eval ref_eval)

lemma ann_listed: "list_document_ids_by_partition_key ref_tantivy ann_engine ''ann'' = [''ann:3'', ''ann:7'']"
  by (simp add: ann_engine_def ann_doc_def list_document_ids_by_partition_key_def engine_eval ref_eval)

definition ann_net :: "ref_index net" where
  "ann_net = \<lparr>nodes = (\<lambda>_. ann_engine), faults = [Refused, ResponseLost]\<rparr>"

lemma ann_net_ok:
  "\<forall>a. engine_inv ref_serde ref_tantivy ref_view (nodes ann_net a) \<and> reader_current ref_view (nodes ann_net a)"
  "serving ann_net" "length (faults ann_net) < 3"
  using ann_engine_ok by (simp_all add: ann_net_def serving_def) (simp add: ann_engine_def ann_doc_def engine_eval ref_eval)

lemma ann_up: "serving n \<Longrightarrow> commit_ok ref_tantivy (writer (nodes n a)) \<and> \<not> poisoned (nodes n a)"
  by (simp add: serving_def commit_ok_def ref_eval)

theorem consumed_deletes_are_published_witness:
  "\<exists>st1 svc' n' w.
     ingest piped_env (sample_router [''n'']) [Row ''s'' (sample_row RowDelete ''ann'' 3)] no_starts (new_service ''ks.t'', ann_net) =
       (no_starts, st1, Inr ()) \<and>
     flush_service piped_env st1 = ((svc', n'), Inr ()) \<and>
     (\<forall>x \<in> set (visible ref_view (writer (reload_reader ref_tantivy (commit_tick ref_tantivy False (nodes n' (node_address ''n'')))))).
        \<forall>d. stored_as ref_serde ref_tantivy x d \<longrightarrow>
          doc_id d = joined_key sample_formats (sample_row RowDelete ''ann'' 3) (full_pk_columns (sample_router [''n''])) \<longrightarrow>
          w \<le> doc_writetime d)"
proof -
  have det: "determine (sample_row RowDelete ''ann'' 3) = Forward OpDelete" by (simp add: determine_def sample_row_def)
  obtain svc svc' n' where run:
    "ingest piped_env (sample_router [''n'']) [Row ''s'' (sample_row RowDelete ''ann'' 3)] no_starts (new_service ''ks.t'', ann_net) =
       (no_starts, (svc, ann_net), Inr ())"
    "flush_service piped_env (svc, ann_net) = ((svc', n'), Inr ())" and up: "serving n'"
    using piped_flushed [OF det ann_net_ok(2,3)] by blast
  have env: "env_formats piped_env = sample_formats" by (simp add: piped_env_def)
  have only: "deletes_only (rows_of [Row ''s'' (sample_row RowDelete ''ann'' 3)])" "buffer (new_service ''ks.t'') = []"
    by (simp_all add: deletes_only_def det new_service_def)
  note ann = ann_up [OF up, of "node_address ''n''"]
  from consumed_deletes_are_published [OF piped_on_nodes ann_net_ok(1) only run _ _ piped_target [of RowDelete "''ann''" 3] conjunct1 [OF ann] conjunct2 [OF ann]]
  obtain w where "\<forall>x \<in> set (visible ref_view (writer (reload_reader ref_tantivy (commit_tick ref_tantivy False (nodes n' (node_address ''n'')))))).
      \<forall>d. stored_as ref_serde ref_tantivy x d \<longrightarrow>
        doc_id d = joined_key sample_formats (sample_row RowDelete ''ann'' 3) (full_pk_columns (sample_router [''n''])) \<longrightarrow>
        w \<le> doc_writetime d"
    by (auto simp: det env)
  with run show ?thesis by (intro exI conjI)
qed

text \<open>The range above 3 up to 9 of the partition, whose node holds the ids 3 and 7.\<close>

abbreviation (input) ann_range :: "ingest_event list" where
  "ann_range \<equiv> [Row ''s'' (sample_row RowRangeDelExclLeft ''ann'' 3), Row ''s'' (sample_row RowRangeDelInclRight ''ann'' 9)]"

lemma ann_range_consumed:
  "\<exists>svc. ingest piped_env (sample_router [''n'']) ann_range no_starts (new_service ''ks.t'', ann_net) =
     (no_starts, (svc, ann_net), Inr ()) \<and> max_retry_attempts svc = 3"
proof -
  let ?svc = "new_service ''ks.t''"
  have "flush_until_ok piped_env 3 (?svc, ann_net) = (?svc, ann_net)"
    unfolding numeral_3_eq_3 by (rule nothing_to_flush) (simp add: new_service_def)
  moreover have "env_list_ids piped_env a pk ann_net = (ann_net, Inr (list_document_ids_by_partition_key ref_tantivy ann_engine pk))" for a pk
    by (simp add: piped_env_def ann_net_def)
  moreover have "start_partition_key (sample_pending ''n'') = ''ann''" by (simp add: sample_pending_def)
  moreover have "env_formats piped_env = sample_formats" by (simp add: piped_env_def)
  ultimately have "commit_range_delete piped_env (sample_router [''n'']) (sample_pending ''n'') (sample_row RowRangeDelInclRight ''ann'' 9)
      (?svc, ann_net) =
      ((?svc\<lparr>buffer := buffer ?svc @ [item_to_string (env_codec piped_env) (range_delete_item (sample_pending ''n'') ''ann:7'')]\<rparr>, ann_net), Inr ())"
    by (simp add: commit_range_delete_def sample_range_rows(3) ann_listed sample_selected)
      (subst enqueue_room, simp_all add: new_service_def is_backpressure_active_def)
  then show ?thesis
    by (simp add: consume_cdc_def sample_range_rows sample_range_start piped_env_def)
      (simp add: new_service_def new_consumer_def fun_eq_iff)
qed


end
