(* ===== verification/Served_Deletes.thy ===== *)
theory Served_Deletes
  imports Processes Deletion
begin

text \<open>
  Deletes up to the gateway: what a started gateway answers after the deletes that a started ingestor consumed have been
  published by their nodes.
\<close>

lemma endpoint_clients:
  "map endpoint addrs = map Inr clients \<Longrightarrow> \<forall>a. endpoint a = Inr (f a) \<Longrightarrow> clients = map f addrs"
proof (induction addrs arbitrary: clients)
  case (Cons addr addrs)
  then show ?case by (cases clients) auto
qed simp

text \<open>Every hit of a gateway whose clients are nodes is a document one of these nodes shows.\<close>

lemma served_hit:
  fixes T :: "('w, 'a, 'd) tantivy" and Q :: "('w, 'a, 'q) query_engine"
  assumes "query_laws T V Q selects" "start_gateway b P endpoint listen given = Inr state"
    and "\<forall>a. endpoint a = Inr (node_client S T Q (now a) (finish a) (es a))" "\<forall>a. sound_docs S T (visible V (writer (es a)))"
    and "search_handler (clients_of_state state) req = (200, Inr resp)" "h \<in> set (hits resp)"
  obtains a x where "x \<in> set (visible V (writer (es a)))" "live T (now a) x"
    "has_term T FieldId (hit_id h) x" "has_term T FieldPartitionKey (hit_partition_key h) x"
proof -
  obtain addrs where "map endpoint addrs = map Inr (clients_of_state state)"
    using assms(2) by (auto simp: start_gateway_def connect_clients_Inr [symmetric] split: option.splits sum.splits)
  then have "clients_of_state state = map (\<lambda>a. node_client S T Q (now a) (finish a) (es a)) addrs"
    by (rule endpoint_clients [OF _ assms(3)])
  moreover have "scatter_gather (clients_of_state state) req = Inr resp"
    using assms(5) by (simp add: search_handler_def split: sum.splits)
  ultimately obtain a resp' where node: "node_client S T Q (now a) (finish a) (es a) (node_request req) = Inr resp'" "h \<in> set (hits resp')"
    using page_from_answers [OF _ assms(6)] by fastforce
  then have "search S T Q (node_request req) (now a) (finish a) (writer (es a)) = Inr resp'"
    by (auto simp: node_client_def search_service_def split: sum.splits if_splits)
  with search_hits_visible [OF assms(1) spec [OF assms(4), of a] this node(2)] that show thesis by blast
qed

text \<open>C8: What was deleted is not served. Take a started ingestor whose nodes' readers are up to date and whose streams of
  deletes and partition deletes were consumed and flushed without an error, in any order with rounds of the ticker, and a
  started gateway of these nodes. Once the node of such a row has committed and reloaded, and where no other node shows
  documents of the row's partition, no answer of the gateway, to whatever search, holds a hit of a deleted
  partition, nor one with the key of a deleted row unless its node has kept a document of that key written at the row's time
  or later.\<close>

theorem deleted_rows_are_not_served:
  fixes T :: "('w, 'a, 'd) tantivy" and Q :: "('w, 'a, 'q) query_engine"
  assumes "on_nodes S T V E" "query_laws T V Q selects" "routing_laws A"
    and "\<forall>a. engine_inv S T V (nodes n a) \<and> reader_current V (nodes n a)" "deletes_only (rows_of events)"
    and "start_ingestor key_info_of search_nodes table_arg = Inr (svc, R)"
    and "ingest E R events (\<lambda>_. new_consumer) (svc, n) = (helds', st1, Inr ())"
    and "shutdown_ingestor E st1 = ((svc', n'), Inr ())"
    and "row \<in> set (rows_of events)" "determine row \<noteq> Skip" "target_of (env_formats E) R row = Inr target"
    and "commit_ok T (writer (nodes n' (node_address target)))" "\<not> poisoned (nodes n' (node_address target))"
    and "es (node_address target) = reload_reader T (commit_tick T False (nodes n' (node_address target)))"
    and "\<forall>a. sound_docs S T (visible V (writer (es a)))"
    and "\<forall>a x. a \<noteq> node_address target \<longrightarrow> x \<in> set (visible V (writer (es a))) \<longrightarrow>
      \<not> has_term T FieldId (joined_key (env_formats E) row (full_pk_columns R)) x \<and>
      \<not> has_term T FieldPartitionKey (joined_key (env_formats E) row (pk_columns R)) x"
    and "start_gateway b P endpoint listen given = Inr state"
    and "\<forall>a. endpoint a = Inr (node_client S T Q (now a) (finish a) (es a))"
    and "request_path A r = ''/api/v1/search''" "request_method A r = ''POST''" "json_body A r = Inr req"
    and "dispatch A (create_router A state) r = (status, SearchAnswer resp)"
  shows "\<exists>w. extract_writetime_from_timeuuid (env_formats E) (row_time row) = Inr w \<and>
    (\<forall>h \<in> set (hits resp).
       (determine row = Forward OpPartitionDelete \<longrightarrow>
          hit_partition_key h \<noteq> joined_key (env_formats E) row (pk_columns R)) \<and>
       (determine row = Forward OpDelete \<longrightarrow> hit_id h = joined_key (env_formats E) row (full_pk_columns R) \<longrightarrow>
          (\<exists>x \<in> set (visible V (writer (es (node_address target)))). \<exists>d. stored_as S T x d \<and> doc_id d = hit_id h \<and> w \<le> doc_writetime d)))"
proof -
  have empty: "buffer svc = []"
    using assms(6) by (elim started_router_fields) (simp add: new_service_def)
  obtain w where w: "extract_writetime_from_timeuuid (env_formats E) (row_time row) = Inr w"
    "\<forall>x \<in> set (visible V (writer (es (node_address target)))). \<forall>d. stored_as S T x d \<longrightarrow>
       (determine row = Forward OpDelete \<longrightarrow> doc_id d = joined_key (env_formats E) row (full_pk_columns R) \<longrightarrow>
          w \<le> doc_writetime d) \<and>
       (determine row = Forward OpPartitionDelete \<longrightarrow>
          doc_partition_key d \<noteq> joined_key (env_formats E) row (pk_columns R))"
    using consumed_deletes_are_published [OF assms(1,4,5) empty assms(7) assms(8) [unfolded shutdown_ingestor_def] assms(9-13)]
    unfolding assms(14) by blast
  have answer: "search_handler (clients_of_state state) req = (200, Inr resp)"
    using search_answer [OF assms(3,19-22)] by blast
  have "(determine row = Forward OpPartitionDelete \<longrightarrow> hit_partition_key h \<noteq> joined_key (env_formats E) row (pk_columns R)) \<and>
    (determine row = Forward OpDelete \<longrightarrow> hit_id h = joined_key (env_formats E) row (full_pk_columns R) \<longrightarrow>
       (\<exists>x \<in> set (visible V (writer (es (node_address target)))). \<exists>d. stored_as S T x d \<and> doc_id d = hit_id h \<and> w \<le> doc_writetime d))"
    if h: "h \<in> set (hits resp)" for h
  proof -
    obtain a x where x: "x \<in> set (visible V (writer (es a)))" "has_term T FieldId (hit_id h) x"
      "has_term T FieldPartitionKey (hit_partition_key h) x"
      using served_hit [OF assms(2,17,18,15) answer h] by metis
    obtain d where d: "stored_as S T x d" using x(1) assms(15) unfolding sound_docs_def by blast
    then have fields: "hit_id h = doc_id d" "hit_partition_key h = doc_partition_key d"
      using x(2,3) by (simp_all add: stored_as_terms)
    show ?thesis
    proof (cases "a = node_address target")
      case True
      then show ?thesis using w(2) x(1) d fields by metis
    next
      case False
      then show ?thesis using assms(16) x by metis
    qed
  qed
  with w(1) show ?thesis by blast
qed

text \<open>The node \<open>n\<close> after its next commit and reload; every other node is empty.\<close>

definition published_at :: "ref_index net \<Rightarrow> string \<Rightarrow> ref_index engine" where
  "published_at n' a =
     (if a = node_address ''n'' then reload_reader ref_tantivy (commit_tick ref_tantivy False (nodes n' a)) else ref_engine)"

abbreviation (input) ann_deleted :: cdc_row where
  "ann_deleted \<equiv> sample_row RowDelete ''ann'' 3"

theorem deleted_rows_are_not_served_witness:
  "\<exists>st1 svc' n' state resp w.
     ingest piped_env (sample_router [''n'']) [Row ''s'' ann_deleted] no_starts (new_service ''ks.t'', ann_net) = (no_starts, st1, Inr ()) \<and>
     shutdown_ingestor piped_env st1 = ((svc', n'), Inr ()) \<and>
     start_gateway Release ref_sockets (\<lambda>a. Inr (node_client ref_serde ref_tantivy find_all (- 1) 0 (published_at n' a))) (\<lambda>_. Inr ())
       (gateway_given ''n'') = Inr state \<and>
     dispatch ref_http (create_router ref_http state) all_request = (200, SearchAnswer resp) \<and>
     (\<forall>h \<in> set (hits resp). hit_id h = joined_key sample_formats ann_deleted (full_pk_columns (sample_router [''n''])) \<longrightarrow>
        (\<exists>x \<in> set (visible ref_view (writer (published_at n' (node_address ''n'')))).
           \<exists>d. stored_as ref_serde ref_tantivy x d \<and> doc_id d = hit_id h \<and> w \<le> doc_writetime d))"
proof -
  have det: "determine ann_deleted = Forward OpDelete" by (simp add: determine_def sample_row_def)
  obtain svc svc' n' where run:
    "ingest piped_env (sample_router [''n'']) [Row ''s'' ann_deleted] no_starts (new_service ''ks.t'', ann_net) = (no_starts, (svc, ann_net), Inr ())"
    "flush_service piped_env (svc, ann_net) = ((svc', n'), Inr ())" and up: "serving n'"
    using piped_flushed [OF det ann_net_ok(2,3)] by blast
  have stop: "shutdown_ingestor piped_env (svc, ann_net) = ((svc', n'), Inr ())" using run(2) by (simp add: shutdown_ingestor_def)
  have env: "env_formats piped_env = sample_formats" by (simp add: piped_env_def)
  have only: "deletes_only (rows_of [Row ''s'' ann_deleted])" by (simp add: deletes_only_def det)
  have empty: "buffer (new_service ''ks.t'') = []" by (simp add: new_service_def)
  note ann = ann_up [OF up, of "node_address ''n''"]
  have inv: "engine_inv ref_serde ref_tantivy ref_view (nodes n' a)" for a
    using consumed_deletes_withdraw(1) [OF piped_on_nodes ann_net_ok(1) only empty run] by blast
  then have "engine_inv ref_serde ref_tantivy ref_view (published_at n' a)" for a
    using engine_inv_reload [OF ref_writer_laws engine_inv_commit [OF ref_writer_laws inv]] ann_up [OF up] ref_engine_inv
    by (simp add: published_at_def)
  then have sound: "\<forall>a. sound_docs ref_serde ref_tantivy (visible ref_view (writer (published_at n' a)))"
    by (simp add: inv_defs)
  have other: "\<forall>a x. a \<noteq> node_address ''n'' \<longrightarrow> x \<in> set (visible ref_view (writer (published_at n' a))) \<longrightarrow> False"
    by (simp add: published_at_def new_engine_def ref_eval)
  obtain a resp where resp: "search_handler [node_client ref_serde ref_tantivy find_all (- 1) 0 (published_at n' (node_address ''n''))]
      all_request = (200, Inr resp)"
    by (rule everything_answered)
  define client where "client = (\<lambda>a. node_client ref_serde ref_tantivy find_all (- 1) 0 (published_at n' a))"
  define state where "state = \<lparr>clients_of_state = map client (client_addresses (str_split (CHR '','') ''n''))\<rparr>"
  have http: "request_path ref_http all_request = ''/api/v1/search''" "request_method ref_http all_request = ''POST''"
    "json_body ref_http all_request = Inr all_request"
    by (simp_all add: ref_http_def)
  have answer: "dispatch ref_http (create_router ref_http state) all_request = (200, SearchAnswer resp)"
    using resp by (simp add: post_search [OF ref_routing_laws http] state_def client_def client_addresses_def)
  note gw = sample_gateway [of client "''n''", folded state_def]
  have here: "published_at n' (node_address ''n'') = reload_reader ref_tantivy (commit_tick ref_tantivy False (nodes n' (node_address ''n'')))"
    by (simp add: published_at_def)
  have row: "ann_deleted \<in> set (rows_of [Row ''s'' ann_deleted])" "determine ann_deleted \<noteq> Skip" by (simp_all add: det)
  obtain w where "\<forall>h \<in> set (hits resp). hit_id h = joined_key sample_formats ann_deleted (full_pk_columns (sample_router [''n''])) \<longrightarrow>
        (\<exists>x \<in> set (visible ref_view (writer (published_at n' (node_address ''n'')))).
           \<exists>d. stored_as ref_serde ref_tantivy x d \<and> doc_id d = hit_id h \<and> w \<le> doc_writetime d)"
    using deleted_rows_are_not_served [where now = "\<lambda>_. - 1" and finish = "\<lambda>_. 0", OF piped_on_nodes find_all_laws ref_routing_laws ann_net_ok(1) only
        piped_start run(1) stop row piped_target conjunct1 [OF ann] conjunct2 [OF ann] here sound _ gw _ http answer] other
    by (auto simp: det env client_def)
  with run(1) stop gw answer show ?thesis unfolding client_def by (intro exI conjI)
qed

end
