(* ===== verification/Post_Images.thy ===== *)
theory Post_Images
  imports Pipeline
begin

text \<open>
  A change and its post-image. In a table whose log records post-images, the row that describes a change is followed by
  one that holds the whole row after it, with the same time; the ingestor forwards both as upserts of one id.
\<close>

text \<open>Rows with one key and one time become items of one node, id and write time.\<close>

lemma same_row_items:
  assumes "forwarded_item E R row t = Inr item" "forwarded_item E R row' t' = Inr item'"
    and "row_time row' = row_time row"
    and "\<And>c. c \<in> set (full_pk_columns R) \<union> set (pk_columns R) \<Longrightarrow> get_value row c = get_value row' c"
  shows "target_node item' = target_node item" "bi_id item' = bi_id item" "bi_writetime item' = bi_writetime item"
proof -
  let ?F = "env_formats E"
  have "hashed_bytes ?F row (pk_columns R) = hashed_bytes ?F row' (pk_columns R)"
    by (rule hashed_bytes_cong) (simp add: assms(4))
  then have "target_of ?F R row = target_of ?F R row'"
    by (simp add: target_of_def get_target_node_id_def)
  then show "target_node item' = target_node item"
    using forwarded_fields [OF assms(1)] forwarded_fields [OF assms(2)] by simp
  have "joined_key ?F row (full_pk_columns R) = joined_key ?F row' (full_pk_columns R)"
    unfolding joined_key_def by (intro arg_cong [of _ _ "str_join _"] map_cong) (simp_all add: key_part_def assms(4))
  then show "bi_id item' = bi_id item"
    using forwarded_fields [OF assms(1)] forwarded_fields [OF assms(2)] by simp
  show "bi_writetime item' = bi_writetime item"
    using forwarded_fields [OF assms(1)] forwarded_fields [OF assms(2)] by (simp add: assms(3))
qed

lemma process_ops_append:
  "process_ops S T (ops @ ops') p s e =
     (case process_ops S T ops p s e of
        (e', Inr r) \<Rightarrow> process_ops S T ops' (processed_count r) (skipped_count r) e'
      | (e', Inl err) \<Rightarrow> (e', Inl err))"
proof (induction ops arbitrary: p s e)
  case (Cons op ops)
  then show ?case by (auto split: prod.split op_outcome.split)
qed simp

lemma held_upsert_skipped:
  assumes "holds_write S T e op" "op_type_of op = OpUpsert"
  shows "process_ops S T [op] p s e = (e, Inr \<lparr>processed_count = p, skipped_count = s + 1, success = True\<rparr>)"
  using assms by (simp add: holds_write_def process_op_def do_upsert_stale)

text \<open>C14: A post-image is never applied. It has the time and the key of the row whose change it completes, so it goes to the
  same node under the same id and write time; once that row's upsert was answered, whatever upserts were sent with it,
  the node skips the post-image, at the end of the same batch as well as after any further batches of upserts, and its
  state depends on nothing the post-image holds.\<close>

theorem post_image_is_dropped:
  assumes "serde_wf S" "writer_laws T V" "storage_laws S T" "reader_laws T V" "engine_inv S T V e"
    and "row_operation post = PostImage" "row_time post = row_time row"
    and "\<And>c. c \<in> set (full_pk_columns R) \<union> set (pk_columns R) \<Longrightarrow> get_value row c = get_value post c"
    and "forwarded_item E R row OpUpsert = Inr item" "forwarded_item E R post OpUpsert = Inr img"
    and "all_upserts (us @ operation_of item # vs)"
    and "process_batch S T (us @ operation_of item # vs) e = (e1, Inr resp)"
  shows "determine post = Forward OpUpsert \<and> target_node img = target_node item \<and>
    process_batch S T ((us @ operation_of item # vs) @ [operation_of img]) e =
      (e1, Inr (resp\<lparr>skipped_count := skipped_count resp + 1\<rparr>)) \<and>
    (\<forall>ws e2 res. all_upserts ws \<longrightarrow> process_batch S T ws e1 = (e2, res) \<longrightarrow>
       process_batch S T [operation_of img] e2 = (e2, Inr \<lparr>processed_count = 0, skipped_count = 1, success = True\<rparr>))"
proof -
  note laws = assms(1-4)
  have same: "target_node img = target_node item" "bi_id img = bi_id item" "bi_writetime img = bi_writetime item"
    using same_row_items [OF assms(9,10,7)] assms(8) by blast+
  have upsert: "op_type_of (operation_of img) = OpUpsert" using forwarded_fields [OF assms(10)] by simp
  have alive: "\<not> poisoned e" using assms(12) by (auto simp: process_batch_def split: if_splits)
  have like: "holds_write S T e' (operation_of img) = holds_write S T e' (operation_of item)" for e'
    by (simp add: holds_write_def is_stale_def operation_of_def same cong: option.case_cong)
  have "holds_write S T e1 (operation_of item)"
    by (rule upsert_batch_held [OF laws assms(5,11,12)]) simp
  then have held: "holds_write S T e1 (operation_of img)" by (simp add: like)
  have inv: "engine_inv S T V e1" using upsert_batch_grows [OF laws assms(5,11,12)] by simp
  have counted: "success resp" using assms(12) alive process_ops_counts by (fastforce simp: process_batch_def)
  have "process_batch S T ((us @ operation_of item # vs) @ [operation_of img]) e =
      (e1, Inr (resp\<lparr>skipped_count := skipped_count resp + 1\<rparr>))"
    using assms(12) alive held_upsert_skipped [OF held upsert] counted
    by (simp add: process_batch_def process_ops_append del: append_assoc process_ops.simps)
  moreover have "process_batch S T [operation_of img] e2 = (e2, Inr \<lparr>processed_count = 0, skipped_count = 1, success = True\<rparr>)"
    if "all_upserts ws" "process_batch S T ws e1 = (e2, res)" for ws e2 res
  proof -
    have "holds_write S T e2 (operation_of img)"
      using upsert_batch_grows [OF laws inv that] held by blast
    moreover have "\<not> poisoned e2"
      by (rule batch_alive [OF batch_alive [OF alive assms(12)] that(2)])
    ultimately show ?thesis
      using held_upsert_skipped [of S T e2 "operation_of img" 0 0] upsert by (simp add: process_batch_def del: process_ops.simps)
  qed
  ultimately show ?thesis using assms(6) same(1) by (simp add: determine_def)
qed

theorem post_image_is_dropped_witness:
  "\<exists>item img e1.
     forwarded_item piped_env (sample_router [''n'']) (sample_row RowUpdate ''ann'' 3) OpUpsert = Inr item \<and>
     forwarded_item piped_env (sample_router [''n'']) (sample_row PostImage ''ann'' 3) OpUpsert = Inr img \<and>
     fst (process_batch ref_serde ref_tantivy [operation_of item] ref_engine) = e1 \<and>
     process_batch ref_serde ref_tantivy [operation_of img] e1 =
       (e1, Inr \<lparr>processed_count = 0, skipped_count = 1, success = True\<rparr>)"
proof -
  let ?R = "sample_router [''n'']" and ?row = "sample_row RowUpdate ''ann'' 3" and ?post = "sample_row PostImage ''ann'' 3"
  obtain item img where items: "forwarded_item piped_env ?R ?row OpUpsert = Inr item" "forwarded_item piped_env ?R ?post OpUpsert = Inr img"
    using piped_item by blast
  have upserts: "all_upserts ([] @ operation_of item # [])"
    using forwarded_fields [OF items(1)] by (simp add: all_upserts_def)
  have "\<not> poisoned ref_engine" by (simp add: new_engine_def)
  with process_ops_ok [OF ref_accepts this, of "[] @ operation_of item # []" 0 0]
  obtain e1 r where run: "process_batch ref_serde ref_tantivy ([] @ operation_of item # []) ref_engine = (e1, Inr r)"
    unfolding process_batch_def by auto
  have row: "row_operation ?post = PostImage" "row_time ?post = row_time ?row" "get_value ?row c = get_value ?post c" for c
    by (simp_all add: sample_row_def)
  have none: "all_upserts []" "process_batch ref_serde ref_tantivy [] e1 = (e1, snd (process_batch ref_serde ref_tantivy [] e1))"
    by (simp_all add: all_upserts_def process_batch_def)
  note post_image_is_dropped [OF ref_serde_wf ref_writer_laws ref_storage_laws ref_reader_laws ref_engine_inv row items upserts run]
  then have "process_batch ref_serde ref_tantivy [operation_of img] e1 =
      (e1, Inr \<lparr>processed_count = 0, skipped_count = 1, success = True\<rparr>)"
    using none by blast
  moreover have "fst (process_batch ref_serde ref_tantivy [operation_of item] ref_engine) = e1"
    using arg_cong [OF run, of fst] by (simp only: append_Nil fst_conv)
  ultimately show ?thesis using items by blast
qed

end
