(* ===== verification/Trace_Events.thy ===== *)
theory Trace_Events
  imports Cql Reference_Index
begin

text \<open>
  The test events the services emit (\<open>common/src/tracing/events.rs\<close>, \<open>common/src/tracing/layer.rs\<close>): the
  names of events and their sources, and the layer that turns an event and the spans around it into
  one JSON object. The span registry is a map from the ids of the open spans to what the layer stored
  with each; a value recorded with \<open>%\<close> or \<open>?\<close> arrives as its text.
\<close>

section \<open>Names\<close>

datatype test_event_source = Gateway | Ingestor | Node | Unspecified

text \<open>\<open>TestEvent\<close>, the discriminants of \<open>TracePayload\<close>: its variants without their fields.\<close>

datatype test_event =
    Startup | GatewayScatterGatherEnter | SearchRequest | SearchResponse | SearchFailure | EngineSearchEnter
  | BatchAddEnter | BatchAddFailure | EngineProcessBatchEnter | IndexBatchRequest | IndexBatchFailure
  | BatchFlushStart | BatchFlushNodeSuccess | BatchFlushNodeFailure | BatchFlushFailed | BatchFlushSuccess
  | CdcRowReceived | CdcRowRouted | CdcRowRouteFailure | IndexBatchResponse | Unknown

fun source_name :: "test_event_source \<Rightarrow> string" where
  "source_name Gateway = ''Gateway''"
| "source_name Ingestor = ''Ingestor''"
| "source_name Node = ''Node''"
| "source_name Unspecified = ''Unspecified''"

fun event_name :: "test_event \<Rightarrow> string" where
  "event_name Startup = ''Startup''"
| "event_name GatewayScatterGatherEnter = ''GatewayScatterGatherEnter''"
| "event_name SearchRequest = ''SearchRequest''"
| "event_name SearchResponse = ''SearchResponse''"
| "event_name SearchFailure = ''SearchFailure''"
| "event_name EngineSearchEnter = ''EngineSearchEnter''"
| "event_name BatchAddEnter = ''BatchAddEnter''"
| "event_name BatchAddFailure = ''BatchAddFailure''"
| "event_name EngineProcessBatchEnter = ''EngineProcessBatchEnter''"
| "event_name IndexBatchRequest = ''IndexBatchRequest''"
| "event_name IndexBatchFailure = ''IndexBatchFailure''"
| "event_name BatchFlushStart = ''BatchFlushStart''"
| "event_name BatchFlushNodeSuccess = ''BatchFlushNodeSuccess''"
| "event_name BatchFlushNodeFailure = ''BatchFlushNodeFailure''"
| "event_name BatchFlushFailed = ''BatchFlushFailed''"
| "event_name BatchFlushSuccess = ''BatchFlushSuccess''"
| "event_name CdcRowReceived = ''CdcRowReceived''"
| "event_name CdcRowRouted = ''CdcRowRouted''"
| "event_name CdcRowRouteFailure = ''CdcRowRouteFailure''"
| "event_name IndexBatchResponse = ''IndexBatchResponse''"
| "event_name Unknown = ''Unknown''"

definition all_events :: "test_event list" where
  "all_events =
     [Startup, GatewayScatterGatherEnter, SearchRequest, SearchResponse, SearchFailure, EngineSearchEnter,
      BatchAddEnter, BatchAddFailure, EngineProcessBatchEnter, IndexBatchRequest, IndexBatchFailure,
      BatchFlushStart, BatchFlushNodeSuccess, BatchFlushNodeFailure, BatchFlushFailed, BatchFlushSuccess,
      CdcRowReceived, CdcRowRouted, CdcRowRouteFailure, IndexBatchResponse, Unknown]"

text \<open>\<open>EnumString\<close>: the variant with that name.\<close>

definition parse_event :: "string \<Rightarrow> test_event option" where
  "parse_event s = find (\<lambda>e. event_name e = s) all_events"

definition all_sources :: "test_event_source list" where
  "all_sources = [Gateway, Ingestor, Node, Unspecified]"

definition parse_source :: "string \<Rightarrow> test_event_source option" where
  "parse_source s = find (\<lambda>e. source_name e = s) all_sources"

section \<open>Recorded fields\<close>

datatype field_value =
    RecordI64 i64 | RecordU64 u64 | RecordF64 f64 | RecordBool bool | RecordStr string
  | RecordDebug string

type_synonym recorded = "(string \<times> field_value) list"

fun visit_value :: "serde \<Rightarrow> field_value \<Rightarrow> json" where
  "visit_value S (RecordI64 x) = JNumber (number_of_i64 x)"
| "visit_value S (RecordU64 x) = JNumber (PosInt x)"
| "visit_value S (RecordF64 x) = number_from_f64 x"
| "visit_value S (RecordBool b) = JBool b"
| "visit_value S (RecordStr s) = JString s"
| "visit_value S (RecordDebug s) = (case from_str S s of Some v \<Rightarrow> v | None \<Rightarrow> JString s)"

fun visit_all :: "serde \<Rightarrow> recorded \<Rightarrow> obj \<Rightarrow> obj" where
  "visit_all S [] fs = fs"
| "visit_all S ((name, v) # rest) fs = visit_all S rest (bt_put name (visit_value S v) fs)"

section \<open>The layer\<close>

type_synonym spans = "(nat \<times> obj option) list"

definition on_new_span :: "serde \<Rightarrow> recorded \<Rightarrow> nat \<Rightarrow> spans \<Rightarrow> spans" where
  "on_new_span S attrs i spans =
     (case hm_get spans i of
        None \<Rightarrow> spans
      | Some _ \<Rightarrow> hm_put i (Some (visit_all S attrs [])) spans)"

definition on_record :: "serde \<Rightarrow> nat \<Rightarrow> recorded \<Rightarrow> spans \<Rightarrow> spans" where
  "on_record S i vals spans =
     (case hm_get spans i of
        None \<Rightarrow> spans
      | Some ext \<Rightarrow>
          let fs = (case ext of None \<Rightarrow> [] | Some fs \<Rightarrow> fs)
          in hm_put i (Some (fold (\<lambda>(key, v). bt_put key v) (visit_all S vals []) fs)) spans)"

text \<open>\<open>payload.entry(key).or_insert_with(value)\<close>.\<close>

definition or_insert :: "string \<times> json \<Rightarrow> obj \<Rightarrow> obj" where
  "or_insert kv payload = (case bt_get payload (fst kv) of Some _ \<Rightarrow> payload | None \<Rightarrow> bt_put (fst kv) (snd kv) payload)"

definition merge_span :: "spans \<Rightarrow> nat \<Rightarrow> obj \<Rightarrow> obj" where
  "merge_span spans i payload =
     (case hm_get spans i of
        Some (Some fs) \<Rightarrow> fold or_insert fs payload
      | _ \<Rightarrow> payload)"

text \<open>The bytes sent, with the scope of the event from its root span inwards.\<close>

definition on_event :: "serde \<Rightarrow> string \<Rightarrow> recorded \<Rightarrow> nat list \<Rightarrow> spans \<Rightarrow> string option" where
  "on_event S target fs scope_from_root spans =
     (if target \<noteq> ''test_event'' then None
      else Some (to_string S (JObject (fold (merge_span spans) scope_from_root (visit_all S fs [])))))"

section \<open>What is sent\<close>

lemma event_name_inj: "parse_event (event_name e) = Some e"
  by (cases e) (simp_all add: parse_event_def all_events_def)

lemma source_name_inj: "parse_source (source_name s) = Some s"
  by (cases s) (simp_all add: parse_source_def all_sources_def)

lemma visit_value_wf: "serde_wf S \<Longrightarrow> json_wf (visit_value S v)"
  by (cases v) (auto simp: number_from_f64_wf number_of_i64_def serde_wf_def split: option.splits)

lemma visit_all_wf:
  "serde_wf S \<Longrightarrow> json_wf (JObject fs) \<Longrightarrow> json_wf (JObject (visit_all S rec fs))"
proof (induction S rec fs rule: visit_all.induct)
  case (2 S name v rest fs)
  have "json_wf (JObject (bt_put name (visit_value S v) fs))"
    using 2 by (intro json_wf_object_put visit_value_wf) simp_all
  with 2 show ?case by (simp only: visit_all.simps)
qed simp

lemma fold_put_wf:
  "json_wf (JObject fs) \<Longrightarrow> \<forall>e \<in> set es. json_wf (snd e) \<Longrightarrow>
   json_wf (JObject (fold (\<lambda>(key, v). bt_put key v) es fs))"
proof (induction es arbitrary: fs)
  case (Cons e es)
  have "json_wf (JObject (bt_put (fst e) (snd e) fs))"
    using Cons.prems by (intro json_wf_object_put) simp_all
  then show ?case using Cons by (simp add: case_prod_unfold del: json_wf.simps)
qed simp

lemma object_values_wf: "json_wf (JObject m) \<Longrightarrow> \<forall>e \<in> set m. json_wf (snd e)"
  by (auto simp: list_all_iff)

text \<open>The registry as spans open, record and close.\<close>

inductive span_run :: "serde \<Rightarrow> spans \<Rightarrow> bool" for S where
  started: "span_run S []"
| opened: "span_run S spans \<Longrightarrow> span_run S (on_new_span S attrs i (hm_put i None spans))"
| noted: "span_run S spans \<Longrightarrow> span_run S (on_record S i vals spans)"
| closed: "span_run S spans \<Longrightarrow> span_run S (hm_remove i spans)"

definition spans_wf :: "spans \<Rightarrow> bool" where
  "spans_wf spans = (hm_inv spans \<and> (\<forall>i fs. hm_get spans i = Some (Some fs) \<longrightarrow> json_wf (JObject fs)))"

lemma span_run_wf:
  assumes "serde_wf S" "span_run S spans"
  shows "spans_wf spans"
  using assms(2)
proof induction
  case (opened spans attrs i)
  have "json_wf (JObject (visit_all S attrs []))"
    by (rule visit_all_wf [OF assms(1) json_wf_empty])
  with opened.IH show ?case
    by (auto simp: spans_wf_def on_new_span_def hmap.get_put hmap.inv_put split: option.splits if_splits
        simp del: json_wf.simps)
next
  case (noted spans i vals)
  have v: "\<forall>e \<in> set (visit_all S vals []). json_wf (snd e)"
    by (rule object_values_wf [OF visit_all_wf [OF assms(1) json_wf_empty]])
  show ?case
  proof (cases "hm_get spans i")
    case None
    with noted.IH show ?thesis by (simp add: on_record_def)
  next
    case (Some ext)
    have "json_wf (JObject (case ext of None \<Rightarrow> [] | Some fs \<Rightarrow> fs))"
      using noted.IH Some by (cases ext) (auto simp: spans_wf_def simp del: json_wf.simps intro: json_wf_empty)
    from fold_put_wf [OF this v] noted.IH Some show ?thesis
      by (auto simp: spans_wf_def on_record_def Let_def hmap.get_put hmap.inv_put split: if_splits
          simp del: json_wf.simps)
  qed
next
  case (closed spans i)
  then show ?case by (auto simp: spans_wf_def hmap.inv_remove hmap.get_remove_Some simp del: json_wf.simps)
qed (simp add: spans_wf_def)

text \<open>The value a field has in the scope: that of the outermost span that has it.\<close>

fun scope_value :: "spans \<Rightarrow> nat list \<Rightarrow> string \<Rightarrow> json option" where
  "scope_value spans [] k = None"
| "scope_value spans (i # is) k =
     (case (case hm_get spans i of Some (Some fs) \<Rightarrow> bt_get fs k | _ \<Rightarrow> None) of
        Some v \<Rightarrow> Some v
      | None \<Rightarrow> scope_value spans is k)"

lemma or_inserts_get:
  "bt_get (fold or_insert es p) k = (case bt_get p k of Some v \<Rightarrow> Some v | None \<Rightarrow> bt_get es k)"
  by (induction es arbitrary: p) (auto simp: or_insert_def bt_get_put bt_get_Cons split: option.splits)

lemma or_inserts_wf:
  "json_wf (JObject p) \<Longrightarrow> \<forall>e \<in> set es. json_wf (snd e) \<Longrightarrow> json_wf (JObject (fold or_insert es p))"
proof (induction es arbitrary: p)
  case (Cons e es)
  have "json_wf (JObject (or_insert e p))"
    using Cons.prems by (auto simp: or_insert_def split: option.split simp del: json_wf.simps intro!: json_wf_object_put)
  then show ?case using Cons by (simp del: json_wf.simps)
qed simp

lemma merge_spans:
  assumes "spans_wf spans" "json_wf (JObject p)"
  shows "json_wf (JObject (fold (merge_span spans) is p)) \<and>
    bt_get (fold (merge_span spans) is p) k =
      (case bt_get p k of Some v \<Rightarrow> Some v | None \<Rightarrow> scope_value spans is k)"
  using assms(2)
proof (induction "is" arbitrary: p)
  case (Cons i "is")
  have "json_wf (JObject (merge_span spans i p)) \<and> bt_get (merge_span spans i p) k =
      (case bt_get p k of Some v \<Rightarrow> Some v
       | None \<Rightarrow> (case hm_get spans i of Some (Some fs) \<Rightarrow> bt_get fs k | _ \<Rightarrow> None))"
    using assms(1) Cons.prems or_inserts_wf [of p] object_values_wf
    by (auto simp: merge_span_def or_inserts_get spans_wf_def split: option.splits simp del: json_wf.simps)
  then show ?case using Cons.IH [of "merge_span spans i p"] by (auto split: option.splits simp del: json_wf.simps)
qed (simp split: option.split)

text \<open>C31: Every event of the target \<open>test_event\<close>, and no other, is sent as one well-formed JSON object,
  whatever was recorded in the open spans before: a field has the value the event gives it, or else that of the
  outermost span around it that has the field.\<close>

theorem event_payload_exact:
  assumes "serde_wf S" "span_run S spans"
  shows "(\<exists>p. on_event S ''test_event'' fs scope spans = Some (to_string S (JObject p)) \<and> json_wf (JObject p) \<and>
      (\<forall>k. bt_get p k = (case bt_get (visit_all S fs []) k of Some v \<Rightarrow> Some v | None \<Rightarrow> scope_value spans scope k))) \<and>
    (\<forall>target. target \<noteq> ''test_event'' \<longrightarrow> on_event S target fs scope spans = None)"
proof -
  have "json_wf (JObject (visit_all S fs []))"
    by (rule visit_all_wf [OF assms(1) json_wf_empty])
  note merged = merge_spans [OF span_run_wf [OF assms] this, of scope]
  show ?thesis
    by (intro conjI exI [of _ "fold (merge_span spans) scope (visit_all S fs [])"] allI impI)
      (simp_all add: on_event_def merged del: json_wf.simps)
qed

definition sample_spans :: spans where
  "sample_spans = on_new_span ref_serde [(''table'', RecordStr ''outer''), (''event'', RecordStr ''x'')] 1 (hm_put 1 None
     (on_new_span ref_serde [(''table'', RecordStr ''inner'')] 2 (hm_put 2 None [])))"

theorem event_payload_exact_witness:
  "\<exists>p. on_event ref_serde ''test_event'' [(''event'', RecordStr (event_name Startup))] [1, 2] sample_spans =
       Some (to_string ref_serde (JObject p)) \<and>
     bt_get p ''event'' = Some (JString ''Startup'') \<and> bt_get p ''table'' = Some (JString ''outer'')"
proof -
  have "span_run ref_serde sample_spans"
    unfolding sample_spans_def by (intro span_run.intros)
  from event_payload_exact [OF ref_serde_wf this, of "[(''event'', RecordStr (event_name Startup))]" "[1, 2]"] obtain p where
    p: "on_event ref_serde ''test_event'' [(''event'', RecordStr (event_name Startup))] [1, 2] sample_spans =
       Some (to_string ref_serde (JObject p))"
    "\<And>k. bt_get p k = (case bt_get (visit_all ref_serde [(''event'', RecordStr (event_name Startup))] []) k of
       Some v \<Rightarrow> Some v | None \<Rightarrow> scope_value sample_spans [1, 2] k)"
    by blast
  have "bt_get p ''event'' = Some (JString ''Startup'')" "bt_get p ''table'' = Some (JString ''outer'')"
    by (simp_all add: p(2) sample_spans_def on_new_span_def bt_get_Cons hm_get_def hm_put_def bt_get_put text_eval)
  with p(1) show ?thesis by (intro exI conjI)
qed

end
