(* ===== verification/Source_Tests.thy ===== *)
theory Source_Tests
  imports Document
begin

text \<open>
  The unit tests of \<open>node/src/engine/core.rs\<close> for \<open>merge_json\<close> and \<open>apply_collection_deltas\<close>, under their names:
  each input and each expected value of the sources is evaluated on the model.
\<close>

text \<open>The texts the tests parse; \<open>not valid json\<close> is none of them.\<close>

definition test_serde :: serde where
  \<open>test_serde =
     \<lparr>from_str = map_of
        [(''["a","b"]'', JArray [JString ''a'', JString ''b'']),
         (''["a"]'', JArray [JString ''a'']),
         (''["b","c"]'', JArray [JString ''b'', JString ''c'']),
         (''["b"]'', JArray [JString ''b'']),
         (''["c"]'', JArray [JString ''c'']),
         (''["new"]'', JArray [JString ''new'']),
         (''["premium"]'', JArray [JString ''premium'']),
         (''["x"]'', JArray [JString ''x'']),
         (''["z"]'', JArray [JString ''z''])],
      to_string = (\<lambda>v. [])\<rparr>\<close>

definition delta :: "string \<Rightarrow> bool \<Rightarrow> string \<Rightarrow> string \<Rightarrow> collection_delta" where
  "delta col tomb added deleted =
     \<lparr>column = col, tombstoned = tomb, added_elements_json = added, deleted_elements_json = deleted\<rparr>"

lemmas test_simps = apply_collection_deltas_def apply_delta_def delta_elements_def existing_elements_def add_elements_def
  remove_deleted_def from_str_vec_def contains_def bt_entry_or_def delta_def test_serde_def less_char_def bt_get_Cons cmp_of_def

lemma add_elements_to_empty_collection:
  \<open>apply_collection_deltas test_serde [delta ''tags'' False ''["a","b"]'' '''']
     (JObject []) =
   JObject [(''tags'', JArray [JString ''a'', JString ''b''])]\<close>
  by (simp add: test_simps)

lemma add_elements_to_existing_collection:
  \<open>apply_collection_deltas test_serde [delta ''tags'' False ''["new"]'' '''']
     (JObject [(''tags'', JArray [JString ''existing''])]) =
   JObject [(''tags'', JArray [JString ''existing'', JString ''new''])]\<close>
  by (simp add: test_simps)

lemma add_duplicate_element_is_deduplicated:
  \<open>apply_collection_deltas test_serde [delta ''tags'' False ''["b","c"]'' '''']
     (JObject [(''tags'', JArray [JString ''a'', JString ''b''])]) =
   JObject [(''tags'', JArray [JString ''a'', JString ''b'', JString ''c''])]\<close>
  by (simp add: test_simps)

lemma remove_elements_from_collection:
  \<open>apply_collection_deltas test_serde [delta ''tags'' False '''' ''["b"]'']
     (JObject [(''tags'', JArray [JString ''a'', JString ''b'', JString ''c''])]) =
   JObject [(''tags'', JArray [JString ''a'', JString ''c''])]\<close>
  by (simp add: test_simps)

lemma remove_nonexistent_element_is_noop:
  \<open>apply_collection_deltas test_serde [delta ''tags'' False '''' ''["z"]'']
     (JObject [(''tags'', JArray [JString ''a'', JString ''b''])]) =
   JObject [(''tags'', JArray [JString ''a'', JString ''b''])]\<close>
  by (simp add: test_simps)

lemma tombstone_clears_collection:
  \<open>apply_collection_deltas test_serde [delta ''tags'' True '''' '''']
     (JObject [(''tags'', JArray [JString ''a'', JString ''b'', JString ''c''])]) =
   JObject [(''tags'', JArray [])]\<close>
  by (simp add: test_simps)

lemma tombstone_then_add_is_overwrite:
  \<open>apply_collection_deltas test_serde [delta ''tags'' True ''["new"]'' '''']
     (JObject [(''tags'', JArray [JString ''old1'', JString ''old2''])]) =
   JObject [(''tags'', JArray [JString ''new''])]\<close>
  by (simp add: test_simps)

lemma insert_tombstones_then_adds:
  \<open>apply_collection_deltas test_serde [delta ''tags'' True ''["premium"]'' '''']
     (JObject []) =
   JObject [(''tags'', JArray [JString ''premium''])]\<close>
  by (simp add: test_simps)

lemma multiple_deltas_on_different_columns:
  \<open>apply_collection_deltas test_serde [delta ''tags'' False ''["b"]'' '''', delta ''categories'' False '''' ''["x"]'']
     (JObject [(''categories'', JArray [JString ''x'']), (''tags'', JArray [JString ''a''])]) =
   JObject [(''categories'', JArray []), (''tags'', JArray [JString ''a'', JString ''b''])]\<close>
  by (simp add: test_simps)

lemma multiple_deltas_on_same_column_applied_sequentially:
  \<open>apply_collection_deltas test_serde [delta ''tags'' False '''' ''["a"]'', delta ''tags'' False ''["c"]'' '''']
     (JObject [(''tags'', JArray [JString ''a'', JString ''b''])]) =
   JObject [(''tags'', JArray [JString ''b'', JString ''c''])]\<close>
  by (simp add: test_simps)

lemma non_object_document_is_noop:
  \<open>apply_collection_deltas test_serde [delta ''tags'' False ''["a"]'' '''']
     (JString ''just a string'') =
   JString ''just a string''\<close>
  by (simp add: test_simps)

lemma empty_deltas_is_noop:
  \<open>apply_collection_deltas test_serde []
     (JObject [(''tags'', JArray [JString ''a''])]) =
   JObject [(''tags'', JArray [JString ''a''])]\<close>
  by (simp add: test_simps)

lemma malformed_json_in_added_elements_is_ignored:
  \<open>apply_collection_deltas test_serde [delta ''tags'' False ''not valid json'' '''']
     (JObject [(''tags'', JArray [JString ''a''])]) =
   JObject [(''tags'', JArray [JString ''a''])]\<close>
  by (simp add: test_simps)

lemma malformed_json_in_deleted_elements_is_ignored:
  \<open>apply_collection_deltas test_serde [delta ''tags'' False '''' ''not valid json'']
     (JObject [(''tags'', JArray [JString ''a'', JString ''b''])]) =
   JObject [(''tags'', JArray [JString ''a'', JString ''b''])]\<close>
  by (simp add: test_simps)

lemma existing_non_array_value_starts_fresh:
  \<open>apply_collection_deltas test_serde [delta ''tags'' False ''["new"]'' '''']
     (JObject [(''tags'', JString ''was_a_string'')]) =
   JObject [(''tags'', JArray [JString ''new''])]\<close>
  by (simp add: test_simps)

lemma merge_json_adds_new_keys:
  "merge_json (JObject [(''name'', JString ''alice'')]) (JObject [(''age'', JNumber (PosInt 30))]) =
   JObject [(''age'', JNumber (PosInt 30)), (''name'', JString ''alice'')]"
  by (simp add: test_simps)

lemma merge_json_overwrites_existing_keys:
  "merge_json (JObject [(''name'', JString ''alice'')]) (JObject [(''name'', JString ''bob'')]) =
   JObject [(''name'', JString ''bob'')]"
  by (simp add: test_simps)

lemma merge_json_nested_objects:
  "merge_json (JObject [(''meta'', JObject [(''x'', JNumber (PosInt 1))])])
     (JObject [(''meta'', JObject [(''y'', JNumber (PosInt 2))])]) =
   JObject [(''meta'', JObject [(''x'', JNumber (PosInt 1)), (''y'', JNumber (PosInt 2))])]"
  by (simp add: test_simps)

end
