(* ===== verification/Spec2Isabelle.thy ===== *)
theory Spec2Isabelle
  imports Document_Props Served_Deletes Post_Images Trace_Events Source_Tests
begin

text \<open>
  This development models the services of \<open>src/rust\<close> that carry changes of ScyllaDB tables into a full-text
  index and answer searches over it. Definitions follow the sources name by name: a definition of the Rust
  name \<open>f\<close> is called \<open>f\<close> here unless HOL has that name already; the body of a long function is split along its
  blocks.

  \<^bold>\<open>The program.\<close> The \<open>ingestor\<close> (\<open>ingestor/src\<close>) reads the change log of one table. Each row it consumes
  (\<open>Consumer::consume_cdc\<close>) becomes an item for the node its partition key hashes to, or, for the two rows
  of a range delete, one delete per document between the bounds. Items are buffered by the batch service,
  which groups them by node and sends each group over gRPC, retrying with exponential backoff. A \<open>node\<close>
  (\<open>node/src\<close>) applies the operations of a batch to a Tantivy index: it drops an upsert that is not newer
  than what the id holds, applies collection deltas, merges the payload into the stored document, and keeps
  the documents not yet committed in a cache; a background task commits, another prunes expired documents. The
  \<open>gateway\<close> (\<open>gateway/src\<close>) sends a search to every node, merges hits, counts and facets, and applies the
  consistency level.

  \<^bold>\<open>Theories and sources.\<close>

    \<^item> \<open>Prelude\<close>, \<open>Rust_String\<close>, \<open>Floats\<close>, \<open>Sort_By\<close>, \<open>Keyed_Map\<close>, \<open>Json\<close>: what the sources use of
      Rust's library. Machine integers are words with the saturating operations and casts written
      out; strings are byte lists with \<open>trim\<close>, \<open>split\<close>, \<open>cmp\<close> and integer parsing; floats are bit
      patterns with \<open>total_cmp\<close> and \<open>partial_cmp\<close>; \<open>sort_by\<close> is a stable sort; a \<open>BTreeMap\<close> is a list sorted
      by key (\<open>bt_\<close>), a hash map an association list (\<open>hm_\<close>), both under the contract \<open>keyed_map\<close>; \<open>json\<close> is
      \<open>serde_json::Value\<close>.
    \<^item> \<open>Document\<close>: \<open>merge_json\<close> and \<open>apply_collection_deltas\<close> of \<open>node/src/engine/core.rs\<close>.
    \<^item> \<open>Index\<close>: the protocol's operations (\<open>service.proto\<close>) and the Tantivy index as a record of
      functions (\<open>tantivy\<close>) with an abstract view (\<open>index_view\<close>) and its laws (\<open>writer_laws\<close>,
      \<open>reader_laws\<close>, \<open>storage_laws\<close>).
    \<^item> \<open>Engine\<close>: the state and the operations of \<open>Engine\<close> in \<open>node/src/engine/core.rs\<close>: \<open>process_batch\<close>
      with one definition per operation kind, the lookup through cache and index, \<open>commit_tick\<close> and
      \<open>prune_tick\<close> (one round of \<open>spawn_committer\<close> and \<open>spawn_pruner\<close>), and the partition listing. The field
      \<open>writer\<close> is the index; \<open>uncommitted_docs\<close> is the cache.
    \<^item> \<open>Search\<close>: \<open>Engine::search\<close> and \<open>try_build_json_special_query\<close>, and the \<open>search\<close> handler of
      \<open>node/src/service/core.rs\<close>.
    \<^item> \<open>Batch_Service\<close>: \<open>ingestor/src/batch/service.rs\<close>; \<open>Node_Service\<close>: the other handlers of
      \<open>node/src/service/core.rs\<close> and a network of nodes with faults between the two.
    \<^item> \<open>Cql\<close>: \<open>ingestor/src/router/utils.rs\<close>; \<open>Router\<close>: \<open>router/core.rs\<close>, \<open>router/common.rs\<close>,
      \<open>cdc/consumer.rs\<close> and the node table of \<open>main.rs\<close>.
    \<^item> \<open>Gateway\<close>: \<open>gateway/src/querier/core.rs\<close>, \<open>server/handlers.rs\<close> and the client list of \<open>main.rs\<close>.
    \<^item> \<open>Start_Up\<close>: \<open>Engine::new\<close> and its schema, \<open>node/src/main.rs\<close> (\<open>start_node\<close>), and \<open>ingestor/src/main.rs\<close> up
      to its \<open>select!\<close> (\<open>main_ingestor\<close>): arguments, test event layer, start time, configuration of the CDC reader.
    \<^item> \<open>Processes\<close>: that \<open>select!\<close> (\<open>run_ingestor\<close>), \<open>gateway/src/main.rs\<close> (\<open>start_gateway\<close>) and
      \<open>gateway/src/server\<close> (\<open>create_router\<close>, \<open>search_route\<close>), and the three processes together.
    \<^item> \<open>Engine_Spec\<close>: the abstract specification of the engine, a \<open>store\<close> of four maps from ids to documents
      (cached, published by the next commit, by the last one, shown by the reader), and the refinement.
    \<^item> \<open>Engine_Faults\<close>: background rounds that fail, and the engine up to generations.
    \<^item> \<open>Publication\<close>, \<open>Pipeline\<close>, \<open>Delivery\<close>, \<open>Deletion\<close>: how a write becomes visible to searches, runs of the ingestor
      (\<open>ingest\<close>: rows of many streams with rounds of the ticker between them) over its nodes, the way of a row up to the
      gateway's answer, and what deletes, partition deletes and range deletes leave on the nodes; \<open>Served_Deletes\<close>: what
      the gateway serves after them; \<open>Post_Images\<close>: what
      becomes of a change and its post-image.
    \<^item> \<open>Source_Tests\<close>: the unit tests of the document algebra in \<open>node/src/engine/core.rs\<close>, evaluated on the model.
    \<^item> \<open>Trace_Events\<close>: \<open>common/src/tracing\<close>, the JSON a test event is sent as.
    \<^item> \<open>Reference_Index\<close>, \<open>Reference_Codec\<close>, \<open>Reference_Search\<close>: concrete instances of the parameters
      below, which satisfy every law assumed of them; the witnesses run on them.
    \<^item> \<open>Engine_Props\<close>, \<open>Document_Props\<close>, \<open>Batch_Props\<close>, \<open>Router_Props\<close>, \<open>Gateway_Props\<close>,
      \<open>Search_Props\<close>, \<open>Facet_Counts\<close>: the lemmas and properties of each component; this theory: those that span
      the services.

  \<^bold>\<open>State.\<close> A service's state is a record passed explicitly and returned updated: \<open>engine\<close>, \<open>service\<close>,
  \<open>router\<close>, \<open>consumer\<close>, and for a search the engine it reads. Every handler is one atomic step, as the
  mutexes make it; orders of steps are the step relations \<open>engine_step\<close> (batches, commits, prunes, reloads of
  the index reader, in any order), \<open>faulty_step\<close> (the same, rounds failing or not) and \<open>service_step\<close> (adds, flushes and ticker rounds). \<open>flush\<close> is two steps
  there, the buffer being taken under the lock and sent without it. Errors are the left values of sums, with
  the sources' error variants; a panic is an error value of its own where a handler's task would die of it.

  \<^bold>\<open>Parameters.\<close> Code outside the repository is an argument:

    \<^item> \<open>tantivy\<close>: the index writer and reader. Law: pending and committed documents are lists a term deletion
      filters and an addition extends; a commit makes the pending ones committed and a reload shows them;
      any operation may fail, and a commit or prune that fails leaves them as they are (\<open>failure_laws\<close>).
    \<^item> \<open>query_engine\<close>: parsing, matching and scoring of queries. Laws, where a property needs them: a
      search gives each selected, unexpired document of the reader once (\<open>query_laws\<close>), best score first and
      none of them NaN (\<open>node_answers\<close>).
    \<^item> \<open>serde\<close>: printing and parsing of JSON texts. Law: a well-formed value printed parses to itself.
    \<^item> \<open>item_codec\<close>: the derived encoding of a buffered item. Law: an encoded item decodes to itself.
    \<^item> \<open>formats\<close>: \<open>Display\<close>, \<open>Debug\<close> and parsing of floats, UUIDs, addresses and base64, and the hash of the
      partition key.
    \<^item> \<open>opener\<close>: directories and the index on them. Law: a directory holds the documents of its last commit, and a
      writer over the index opened there starts from them.
    \<^item> \<open>transport\<close>: the answer, or failure, of one gRPC call, with the state of what is called.
    \<^item> \<open>sockets\<close>, \<open>scylla\<close>: addresses and sockets; the database session, the query for the key columns, the checkpoint
      saver and the CDC reader, whose calls may fail. The reader ends with the error of the first row that fails.
    \<^item> \<open>http\<close>: the parts of a request, its body read as JSON, the dispatch over the table of routes. Law: a request
      whose path and method are those of a route is answered by the route's handler (\<open>routing_laws\<close>).

  \<^bold>\<open>Interfaces.\<close> Where one part relies on another the contract is a locale, interpreted on the model's own
  definitions: \<open>keyed_map\<close>, \<open>keyed_store\<close> and \<open>counter_map\<close> (the two map types), \<open>keyed_cmp\<close> (the comparisons
  given to \<open>sort_by\<close>), \<open>node_network\<close> (what the batch service may assume of a call, provided by the nodes behind a
  faulty network) and \<open>search_node\<close> (what the gateway may assume of a client, provided by the engine's search).

  What batches do on the nodes is stated once as a \<open>batch_contract\<close> (an invariant of each engine, and a fact every
  answered operation establishes and later batches keep): \<open>flush_contract\<close>, \<open>ingested_and_flushed\<close> and
  \<open>committed_range\<close> carry any such contract through retries, flushes, rounds of the ticker and streams of rows. Writes, writes to
  accepting indexes, deletes and range deletes are instances.

  \<^bold>\<open>What the lemmas show.\<close> The engine keeps its invariant in every run, also when commits and prunes fail; every
  batch and every run is one of the store; replays after a commit are no-ops; the exceptions the code has (a delete without
  a tombstone, a failed addition that a retry counts as skipped, the gap between commit and reload, expired
  content that comes back, post-images that are never applied, a node that stops without a commit, a reader whose end
  takes the buffer with it) are theorems too. A flush conserves items, keeps their order per node, is bounded by its attempts, and its success means that
  the nodes hold what was buffered. Rows of a partition go to one node; payloads hold what the row held; range
  deletes select what lies between the bounds. A search returns live documents only; the gateway's page is
  the page of the global ranking, its counts are sums, and the consistency level decides on success. Across the
  services: a row that was consumed and flushed is held by its node, and is what
  searches read after the next commit and reload, up to the answer of a gateway that was started with the same nodes; a deleted row,
  partition or range is gone then, from the gateway's answers too, and a range delete takes nothing else.

  \<^bold>\<open>Loops and bounds.\<close> Every recursion is on its data. \<open>retry_loop\<close> runs down from \<open>max_retry_attempts\<close>
  and \<open>flush_until_ok\<close> from \<open>FLUSH_RETRIES\<close>, as the \<open>for\<close> loops do, so no fuel is added to the code. A grouped
  search collects at most 10,000 documents, as the code does. Waiting is recorded, not performed: a send
  returns the pauses it made.

  \<^bold>\<open>Not modelled.\<close> Setting up the logger (\<open>logger.rs\<close>, and the tracing layers of the mains and of the HTTP server),
  which decides only what is printed; signals and the loops that serve gRPC and HTTP, which are calls of libraries; the
  protocol compiler's run (\<open>build.rs\<close>); the test harness (\<open>testing\<close>); texts of errors that are only logged. The query
  that reads the key columns of a table is an argument, its result rows; so are the file system and the opening of an
  index (\<open>opener\<close>).
\<close>

section \<open>The services together\<close>



text \<open>What was consumed becomes searchable. Where the index accepts documents and every node starts settled (fresh, or
  just committed and reloaded), each row of streams of writes that were consumed and flushed without an error is,
  after its node's next commit and reload, the one document of its key that searches read, with that row's write
  time or a newer one; and every search of that node whose query selects it while it is live, with room for all its
  matches on the page, returns a hit with the row's key.\<close>

theorem consumed_rows_are_searchable:
  fixes T :: "('w, 'a, 'd) tantivy" and Q :: "('w, 'a, 'q) query_engine"
  assumes "on_nodes S T V E" "accepts S T" "env_serde E = S" "serde_roundtrip S" "query_laws T V Q selects"
    and "\<forall>a. settled S T V (nodes n a)" "buffer svc = []" "writes_only (rows_of events)" "times_in_range (env_formats E) (rows_of events)"
    and "ingest E R events helds (svc, n) = (helds', st1, Inr ())"
    and "flush_service E st1 = ((svc', n'), Inr ())"
    and "row \<in> set (rows_of events)" "determine row \<noteq> Skip" "target_of (env_formats E) R row = Inr target"
    and "commit_ok T (writer (nodes n' (node_address target)))" "\<not> poisoned (nodes n' (node_address target))"
  defines "e \<equiv> reload_reader T (commit_tick T False (nodes n' (node_address target)))"
    and "key \<equiv> joined_key (env_formats E) row (full_pk_columns R)"
  shows "\<exists>x d w. filter (has_term T FieldId key) (visible V (writer e)) = [x] \<and> stored_as S T x d \<and>
    extract_writetime_from_timeuuid (env_formats E) (row_time row) = Inr w \<and> w \<le> doc_writetime d \<and>
    (\<forall>r q now finish resp.
       query_of Q (effective_query (show_boost Q) (req_boost_fields r) (req_default_fields r) (req_query r)) = Inr q \<and>
       selects q x \<and> live T now x \<and> \<not> req_group_by_partition r \<and> req_offset r = 0 \<and>
       length (filter (\<lambda>y. selects q y \<and> live T now y) (visible V (writer e))) \<le> unat (req_limit r) \<and>
       search S T Q r now finish (writer e) = Inr resp \<longrightarrow> key \<in> hit_id ` set (hits resp))"
proof -
  obtain x d w where x: "filter (has_term T FieldId key) (visible V (writer e)) = [x]" "stored_as S T x d"
    "extract_writetime_from_timeuuid (env_formats E) (row_time row) = Inr w" "w \<le> doc_writetime d"
    and at: "x \<in> set (visible V (writer e))" "has_term T FieldId key x"
    unfolding e_def key_def by (rule published_row [OF assms(1-4,6-16)])
  have field: "doc_field T x FieldId = key" using at(2) by (simp add: has_term_def doc_field_def)
  show ?thesis
    using x search_finds [OF assms(5) _ _ _ _ _ at(1), unfolded field] by (intro exI conjI) blast+
qed

theorem consumed_rows_are_searchable_witness:
  "\<exists>st1 svc' n' x.
     ingest piped_env (sample_router [''n'']) [Row ''s'' piped_row, Tick] no_starts (new_service ''ks.t'', piped_net) = (no_starts, st1, Inr ()) \<and>
     flush_service piped_env st1 = ((svc', n'), Inr ()) \<and>
     filter (has_term ref_tantivy FieldId (joined_key sample_formats piped_row (full_pk_columns (sample_router [''n'']))))
       (visible ref_view (writer (reload_reader ref_tantivy (commit_tick ref_tantivy False (nodes n' (node_address ''n'')))))) = [x]"
proof -
  obtain svc n' where run:
    "ingest piped_env (sample_router [''n'']) [Row ''s'' piped_row, Tick] no_starts (new_service ''ks.t'', piped_net) =
       (no_starts, (svc, n'), Inr ())"
    "flush_service piped_env (svc, n') = ((svc, n'), Inr ())" and up: "serving n'"
    using piped_ticked [OF piped_forward] piped_serving by blast
  have env: "env_serde piped_env = ref_serde" "env_formats piped_env = sample_formats" by (simp_all add: piped_env_def)
  have start: "\<forall>a. settled ref_serde ref_tantivy ref_view (nodes piped_net a)" "buffer (new_service ''ks.t'') = []"
    using fresh_settled [OF ref_fresh ref_reader_laws] by (simp_all add: sample_net_def new_service_def)
  have "commit_ok ref_tantivy (writer (nodes n' (node_address ''n'')))" "\<not> poisoned (nodes n' (node_address ''n''))"
    using up by (simp_all add: commit_ok_def ref_eval serving_def)
  from consumed_rows_are_searchable [OF piped_on_nodes ref_accepts env(1) ref_serde_roundtrip ref_query_laws start piped_writes
      piped_times run _ piped_not_skipped piped_target this]
  obtain x where "filter (has_term ref_tantivy FieldId (joined_key sample_formats piped_row (full_pk_columns (sample_router [''n'']))))
      (visible ref_view (writer (reload_reader ref_tantivy (commit_tick ref_tantivy False (nodes n' (node_address ''n'')))))) = [x]"
    by (auto simp: env)
  with run show ?thesis by (intro exI conjI)
qed

end
